theory Spec2Isabelle
  imports Main "HOL-Library.Word"
begin

section \<open>PKCS\#11 values used by object.c\<close>

text \<open>
  The file \<^verbatim>\<open>src/lib/object.c\<close> includes \<^verbatim>\<open>pkcs11.h\<close>, \<^verbatim>\<open>object.h\<close>,
  \<^verbatim>\<open>token.h\<close> and \<^verbatim>\<open>utils.h\<close>. The types below are the ones object.c reads and
  writes. \<^verbatim>\<open>CK_ULONG\<close> identifiers (attribute types, mechanism types, object handles)
  are 64-bit words; the object's \<^verbatim>\<open>id\<close> (\<^verbatim>\<open>unsigned\<close>) and \<^verbatim>\<open>handle\<close>
  (\<^verbatim>\<open>uint32_t\<close>) are 32-bit words. Lengths and counts are natural numbers: object.c
  only compares them and adds two counts.

  A pointer to bytes (\<^verbatim>\<open>CK_VOID_PTR\<close>) is \<open>None\<close> for \<^verbatim>\<open>NULL\<close> and \<open>Some bs\<close> for
  a pointer to a buffer holding the bytes \<open>bs\<close>. An array passed as pointer and
  count is a list (the entries readable at the pointer) and the count; the code reads
  the first \<open>count\<close> entries. The C contract that a buffer holds at least as many
  bytes as its declared length, and an array at least as many entries as its count, is
  the caller's: object.c never checks it.
\<close>

type_synonym CK_BYTE = "8 word"
type_synonym CK_ULONG = "64 word"
type_synonym CK_OBJECT_HANDLE = "64 word"
type_synonym CK_ATTRIBUTE_TYPE = "64 word"
type_synonym CK_MECHANISM_TYPE = "64 word"
type_synonym CK_VOID_PTR = "CK_BYTE list option"

datatype CK_RV =
    CKR_OK
  | CKR_HOST_MEMORY
  | CKR_GENERAL_ERROR
  | CKR_ARGUMENTS_BAD
  | CKR_MECHANISM_INVALID
  | CKR_MECHANISM_PARAM_INVALID
  | CKR_OBJECT_HANDLE_INVALID
  | CKR_OPERATION_ACTIVE
  | CKR_OPERATION_NOT_INITIALIZED
  | CKR_BUFFER_TOO_SMALL

record CK_ATTRIBUTE =
  type :: CK_ATTRIBUTE_TYPE
  pValue :: CK_VOID_PTR
  ulValueLen :: nat

record CK_MECHANISM =
  mechanism :: CK_MECHANISM_TYPE
  pParameter :: CK_VOID_PTR
  ulParameterLen :: nat

record CK_RSA_PKCS_OAEP_PARAMS =
  hashAlg :: CK_MECHANISM_TYPE
  mgf :: CK_ULONG

text \<open>The three mechanism types the switch of \<^verbatim>\<open>object_mech_is_supported\<close> names, with
  their values in the PKCS\#11 header.\<close>

definition CKM_RSA_X_509 :: CK_MECHANISM_TYPE where
  "CKM_RSA_X_509 = 0x00000003"

definition CKM_RSA_PKCS_OAEP :: CK_MECHANISM_TYPE where
  "CKM_RSA_PKCS_OAEP = 0x00000009"

definition CKM_AES_CBC :: CK_MECHANISM_TYPE where
  "CKM_AES_CBC = 0x00001082"

subsection \<open>Reading and writing memory\<close>

definition bytes_at :: "CK_VOID_PTR \<Rightarrow> CK_BYTE list" where
  "bytes_at p = (case p of None \<Rightarrow> [] | Some bs \<Rightarrow> bs)"

text \<open>The entries readable at an array pointer: none at \<^verbatim>\<open>NULL\<close>.\<close>

definition entries_at :: "'a list option \<Rightarrow> 'a list" where
  "entries_at p = (case p of None \<Rightarrow> [] | Some xs \<Rightarrow> xs)"

text \<open>\<open>memcmp_is_0 p q n\<close> is the C condition \<^verbatim>\<open>!memcmp(p, q, n)\<close>: the first \<open>n\<close> bytes
  at \<open>p\<close> and at \<open>q\<close> are the same.\<close>

definition memcmp_is_0 :: "CK_VOID_PTR \<Rightarrow> CK_VOID_PTR \<Rightarrow> nat \<Rightarrow> bool" where
  "memcmp_is_0 p q n = (take n (bytes_at p) = take n (bytes_at q))"

text \<open>\<open>memcpy dst src n\<close> is the destination buffer after \<^verbatim>\<open>memcpy(dst, src, n)\<close>: its
  first \<open>n\<close> bytes are those of the source, the rest is kept.\<close>

definition memcpy :: "CK_BYTE list \<Rightarrow> CK_BYTE list \<Rightarrow> nat \<Rightarrow> CK_BYTE list" where
  "memcpy dst src n = take n src @ drop n dst"

text \<open>The cast of a parameter pointer to \<^verbatim>\<open>CK_RSA_PKCS_OAEP_PARAMS_PTR\<close> and the read
  of the two members object.c looks at: they are \<^verbatim>\<open>CK_ULONG\<close>-sized, \<^verbatim>\<open>hashAlg\<close> at
  offset 0 and \<^verbatim>\<open>mgf\<close> after it, in the machine's (little-endian) byte order. The code
  reads them whatever \<^verbatim>\<open>ulParameterLen\<close> says. Through \<^verbatim>\<open>NULL\<close>, or through a pointer to
  fewer than the 16 bytes of the two members, the read is outside any object and the
  program gives no result: that is \<open>None\<close>.\<close>

definition ck_ulong_at :: "CK_BYTE list \<Rightarrow> nat \<Rightarrow> CK_ULONG" where
  "ck_ulong_at bs off = word_rcat (rev (take 8 (drop off bs)))"

definition as_oaep_params :: "CK_VOID_PTR \<Rightarrow> CK_RSA_PKCS_OAEP_PARAMS option" where
  "as_oaep_params p =
     (case p of
        None \<Rightarrow> None
      | Some bs \<Rightarrow>
          if length bs < 16 then None
          else Some \<lparr>hashAlg = ck_ulong_at bs 0, mgf = ck_ulong_at bs 8\<rparr>)"

subsection \<open>The allocator\<close>

text \<open>
  \<^verbatim>\<open>calloc\<close> and \<^verbatim>\<open>realloc\<close> can fail. The heap says, for the first, second, ...
  allocation request of the program, whether it succeeds (\<open>outcome\<close>), and counts the
  requests made so far (\<open>used\<close>). A function that returns the heap it was given has
  made no request. \<^verbatim>\<open>free\<close> is not a request and is left out.
\<close>

record heap =
  outcome :: "nat \<Rightarrow> bool"
  used :: nat

definition calloc :: "heap \<Rightarrow> bool \<times> heap" where
  "calloc h = (outcome h (used h), h\<lparr>used := Suc (used h)\<rparr>)"

definition realloc :: "heap \<Rightarrow> bool \<times> heap" where
  "realloc h = (outcome h (used h), h\<lparr>used := Suc (used h)\<rparr>)"

subsection \<open>Refused arguments\<close>

text \<open>Modelled from the spec: \<^verbatim>\<open>check_pointer\<close>, a macro of \<^verbatim>\<open>checks.h\<close>, which is not
  among the sources. The specification counts a null required input as a violation of
  the caller's contract: on a \<^verbatim>\<open>NULL\<close> pointer the macro makes the calling function
  return at once, with the code PKCS\#11 has for a bad argument.\<close>

definition check_pointer_rv :: CK_RV where
  "check_pointer_rv = CKR_ARGUMENTS_BAD"

section \<open>Token objects\<close>

text \<open>
  \<^verbatim>\<open>struct tobject\<close> as object.c uses it. The pair \<^verbatim>\<open>atributes.count\<close>,
  \<^verbatim>\<open>atributes.attrs\<close> is the list \<open>atributes\<close> (its length is the count), and likewise
  \<open>mechanisms\<close>. The link \<^verbatim>\<open>l\<close> is the object's place in the token's list. The field
  \<^verbatim>\<open>id\<close> is written \<open>id'\<close>.
\<close>

record tobject =
  id' :: "32 word"
  handle :: "32 word"
  pub :: CK_VOID_PTR
  priv :: CK_VOID_PTR
  objauth :: CK_VOID_PTR
  unsealed_auth :: CK_VOID_PTR
  atributes :: "CK_ATTRIBUTE list"
  mechanisms :: "CK_MECHANISM list"

text \<open>An object that \<^verbatim>\<open>calloc\<close> has just returned: every field is zero.\<close>

definition zero_tobject :: tobject where
  "zero_tobject =
     \<lparr>id' = 0, handle = 0, pub = None, priv = None, objauth = None, unsealed_auth = None,
      atributes = [], mechanisms = []\<rparr>"

definition tobject_new :: "heap \<Rightarrow> tobject option \<times> heap" where
  "tobject_new h =
     (case calloc h of
        (False, h') \<Rightarrow> (None, h')
      | (True, h') \<Rightarrow> (Some zero_tobject, h'))"

definition tobject_set_handle :: "tobject \<Rightarrow> 32 word \<Rightarrow> tobject" where
  "tobject_set_handle tobj h = tobj\<lparr>handle := h\<rparr>"

definition tobject_set_id :: "tobject \<Rightarrow> 32 word \<Rightarrow> tobject" where
  "tobject_set_id tobj i = tobj\<lparr>id' := i\<rparr>"

section \<open>The template matcher\<close>

text \<open>The inner loop of \<^verbatim>\<open>object_attr_filter\<close>, over the object's attributes: the value
  of \<^verbatim>\<open>is_attr_match\<close> when the loop ends.\<close>

fun attr_match :: "CK_ATTRIBUTE \<Rightarrow> CK_ATTRIBUTE list \<Rightarrow> bool" where
  "attr_match search [] = False"
| "attr_match search (compare # rest) =
     (if type search \<noteq> type compare then attr_match search rest
      else if ulValueLen search \<noteq> ulValueLen compare then attr_match search rest
      else if memcmp_is_0 (pValue compare) (pValue search) (ulValueLen search) then True
      else attr_match search rest)"

text \<open>The outer loop, over the template entries \<^verbatim>\<open>templ[0]\<close> to \<^verbatim>\<open>templ[count - 1]\<close>.\<close>

fun filter_loop :: "tobject \<Rightarrow> CK_ATTRIBUTE list \<Rightarrow> tobject option" where
  "filter_loop tobj [] = Some tobj"
| "filter_loop tobj (search # rest) =
     (if \<not> attr_match search (atributes tobj) then None else filter_loop tobj rest)"

definition object_attr_filter :: "tobject \<Rightarrow> CK_ATTRIBUTE list \<Rightarrow> nat \<Rightarrow> tobject option" where
  "object_attr_filter tobj templ count =
     (if count = 0 then Some tobj else filter_loop tobj (take count templ))"

section \<open>The mechanism compatibility checker\<close>

text \<open>The OAEP rule reads \<^verbatim>\<open>requested->hashAlg\<close> and \<^verbatim>\<open>got->hashAlg\<close> with no check of
  either pointer: when one of them does not point to a parameter struct the function
  has no result (\<open>None\<close>), and neither has \<^verbatim>\<open>object_mech_is_supported\<close>, which calls
  it.\<close>

definition object_CKM_RSA_PKCS_OAEP_params_supported ::
    "CK_VOID_PTR \<Rightarrow> CK_VOID_PTR \<Rightarrow> bool option" where
  "object_CKM_RSA_PKCS_OAEP_params_supported requested got =
     (case as_oaep_params requested of
        None \<Rightarrow> None
      | Some r \<Rightarrow>
          (case as_oaep_params got of
             None \<Rightarrow> None
           | Some g \<Rightarrow> Some (hashAlg r = hashAlg g \<and> mgf r = mgf g)))"

definition object_CKM_AES_CBC_params_supported :: "CK_MECHANISM \<Rightarrow> bool" where
  "object_CKM_AES_CBC_params_supported requested = (ulParameterLen requested = 16)"

text \<open>The loop of \<^verbatim>\<open>object_mech_is_supported\<close> over the entries from \<^verbatim>\<open>mech[i]\<close> on;
  the flag is the value of \<^verbatim>\<open>got_to_params\<close> so far. The result is the code returned,
  or \<open>None\<close> when the OAEP case reads through a pointer that holds no struct.\<close>

fun mech_loop :: "CK_MECHANISM list \<Rightarrow> CK_MECHANISM \<Rightarrow> bool \<Rightarrow> CK_RV option" where
  "mech_loop [] mech got_to_params =
     Some (if got_to_params then CKR_MECHANISM_PARAM_INVALID else CKR_MECHANISM_INVALID)"
| "mech_loop (m # rest) mech got_to_params =
     (if mechanism mech \<noteq> mechanism m then mech_loop rest mech got_to_params
      else
        (case
           (if mechanism mech = CKM_RSA_X_509 then Some True
            else if mechanism mech = CKM_RSA_PKCS_OAEP then
              object_CKM_RSA_PKCS_OAEP_params_supported (pParameter mech) (pParameter m)
            else if mechanism mech = CKM_AES_CBC then
              Some (object_CKM_AES_CBC_params_supported mech)
            else Some (ulParameterLen mech = ulParameterLen m \<and>
                       memcmp_is_0 (pParameter mech) (pParameter m) (ulParameterLen m)))
         of
           None \<Rightarrow> None
         | Some is_equal \<Rightarrow> if \<not> is_equal then mech_loop rest mech True else Some CKR_OK))"

definition object_mech_is_supported :: "tobject \<Rightarrow> CK_MECHANISM \<Rightarrow> CK_RV option" where
  "object_mech_is_supported tobj mech = mech_loop (mechanisms tobj) mech False"

section \<open>The token and its active operation\<close>

text \<open>
  A find session: \<open>head\<close> is the match list, each node a reference to an object of
  the token, written as the object's position in the token's list; \<open>cur\<close> is the part
  of the match list from the cursor on.
\<close>

record object_find_data =
  head :: "nat list"
  cur :: "nat list"

datatype operation = operation_find

record token =
  tobjects :: "tobject list"
  opdata :: "(operation \<times> object_find_data) option"

text \<open>Modelled from the spec: the four functions of the operation-state collaborator
  (\<^verbatim>\<open>token.c\<close> is not among the sources). The token has one slot, empty or holding an
  operation kind and its state; \<open>get\<close> fails with the no-active-operation error when
  the slot does not hold an operation of the kind asked for.\<close>

definition token_opdata_is_active :: "token \<Rightarrow> bool" where
  "token_opdata_is_active tok = (opdata tok \<noteq> None)"

definition token_opdata_set :: "token \<Rightarrow> operation \<Rightarrow> object_find_data \<Rightarrow> token" where
  "token_opdata_set tok kind fd = tok\<lparr>opdata := Some (kind, fd)\<rparr>"

definition token_opdata_get :: "token \<Rightarrow> operation \<Rightarrow> CK_RV + object_find_data" where
  "token_opdata_get tok kind =
     (case opdata tok of
        None \<Rightarrow> Inl CKR_OPERATION_NOT_INITIALIZED
      | Some (k, fd) \<Rightarrow> if k = kind then Inr fd else Inl CKR_OPERATION_NOT_INITIALIZED)"

definition token_opdata_clear :: "token \<Rightarrow> token" where
  "token_opdata_clear tok = tok\<lparr>opdata := None\<rparr>"

section \<open>The find session\<close>

text \<open>The \<^verbatim>\<open>while (cur)\<close> loop of \<^verbatim>\<open>object_find_init\<close>: \<open>i\<close> is the position of the
  object the loop is at, \<open>ms\<close> the match list built so far. Every match costs one
  \<^verbatim>\<open>calloc\<close>; when it fails the loop leaves with \<^verbatim>\<open>CKR_HOST_MEMORY\<close>.\<close>

fun build_matches ::
    "heap \<Rightarrow> tobject list \<Rightarrow> nat \<Rightarrow> CK_ATTRIBUTE list \<Rightarrow> nat \<Rightarrow> nat list
       \<Rightarrow> CK_RV \<times> nat list \<times> heap" where
  "build_matches h [] i templ count ms = (CKR_OK, ms, h)"
| "build_matches h (tobj # rest) i templ count ms =
     (case object_attr_filter tobj templ count of
        None \<Rightarrow> build_matches h rest (Suc i) templ count ms
      | Some match \<Rightarrow>
          (case calloc h of
             (False, h') \<Rightarrow> (CKR_HOST_MEMORY, ms, h')
           | (True, h') \<Rightarrow> build_matches h' rest (Suc i) templ count (ms @ [i])))"

text \<open>\<^verbatim>\<open>object_find_init\<close> returns its code, the token and the heap. A session that is
  not stored in the token is freed before the function returns.\<close>

definition object_find_init ::
    "heap \<Rightarrow> token \<Rightarrow> CK_ATTRIBUTE list option \<Rightarrow> nat \<Rightarrow> CK_RV \<times> token \<times> heap" where
  "object_find_init h tok templ count =
     (if count > 0 \<and> templ = None then (check_pointer_rv, tok, h)
      else if token_opdata_is_active tok then (CKR_OPERATION_ACTIVE, tok, h)
      else
        (case calloc h of
           (False, h1) \<Rightarrow> (CKR_HOST_MEMORY, tok, h1)
         | (True, h1) \<Rightarrow>
             if tobjects tok = [] then
               (CKR_OK, token_opdata_set tok operation_find \<lparr>head = [], cur = []\<rparr>, h1)
             else
               (case build_matches h1 (tobjects tok) 0 (entries_at templ) count [] of
                  (CKR_OK, ms, h2) \<Rightarrow>
                    (CKR_OK, token_opdata_set tok operation_find \<lparr>head = ms, cur = ms\<rparr>, h2)
                | (rv, ms, h2) \<Rightarrow> (rv, tok, h2))))"

text \<open>The loop of \<^verbatim>\<open>object_find\<close>: the cursor, the caller's array and \<^verbatim>\<open>count\<close>. The
  value written is the object's \<^verbatim>\<open>id\<close>, widened to a \<^verbatim>\<open>CK_OBJECT_HANDLE\<close>.\<close>

fun find_loop ::
    "tobject list \<Rightarrow> nat list \<Rightarrow> CK_OBJECT_HANDLE list \<Rightarrow> nat \<Rightarrow> nat
       \<Rightarrow> nat list \<times> CK_OBJECT_HANDLE list \<times> nat" where
  "find_loop objs [] object count max_object_count = ([], object, count)"
| "find_loop objs (c # next) object count max_object_count =
     (if count < max_object_count then
        find_loop objs next (object[count := ucast (id' (objs ! c))]) (Suc count)
          max_object_count
      else (c # next, object, count))"

text \<open>\<^verbatim>\<open>object_find\<close> returns its code, the token, the caller's array and the caller's
  count location.\<close>

definition object_find ::
    "token \<Rightarrow> CK_OBJECT_HANDLE list option \<Rightarrow> nat \<Rightarrow> nat option
       \<Rightarrow> CK_RV \<times> token \<times> CK_OBJECT_HANDLE list option \<times> nat option" where
  "object_find tok object max_object_count object_count =
     (case object of
        None \<Rightarrow> (check_pointer_rv, tok, object, object_count)
      | Some arr \<Rightarrow>
          (case object_count of
             None \<Rightarrow> (check_pointer_rv, tok, object, object_count)
           | Some n \<Rightarrow>
               (case token_opdata_get tok operation_find of
                  Inl rv \<Rightarrow> (rv, tok, object, object_count)
                | Inr fd \<Rightarrow>
                    (case find_loop (tobjects tok) (cur fd) arr 0 max_object_count of
                       (cur', arr', count) \<Rightarrow>
                         (CKR_OK, tok\<lparr>opdata := Some (operation_find, fd\<lparr>cur := cur'\<rparr>)\<rparr>,
                          Some arr', Some count)))))"

definition object_find_final :: "token \<Rightarrow> CK_RV \<times> token" where
  "object_find_final tok =
     (case token_opdata_get tok operation_find of
        Inl rv \<Rightarrow> (rv, tok)
      | Inr fd \<Rightarrow> (CKR_OK, token_opdata_clear tok))"

section \<open>Attribute retrieval\<close>

text \<open>\<^verbatim>\<open>find_object_by_id\<close> walks the token's list and returns the first object whose
  \<^verbatim>\<open>id\<close> is the handle: here its position. \<open>find_by_id_loop\<close> is the loop, at
  position \<open>i\<close>. The handle is a \<^verbatim>\<open>CK_ULONG\<close> and the \<^verbatim>\<open>id\<close> an \<^verbatim>\<open>unsigned\<close>: the
  comparison widens the id. On a token without objects the C function starts from
  \<^verbatim>\<open>&tok->tobjects->l\<close> with \<^verbatim>\<open>tobjects\<close> being \<^verbatim>\<open>NULL\<close>, and what it does depends on
  the layout of the struct in \<^verbatim>\<open>object.h\<close>; the loop below finds nothing there.\<close>

fun find_by_id_loop :: "CK_OBJECT_HANDLE \<Rightarrow> tobject list \<Rightarrow> nat \<Rightarrow> nat option" where
  "find_by_id_loop h [] i = None"
| "find_by_id_loop h (cur_tobj # rest) i =
     (if h = ucast (id' cur_tobj) then Some i else find_by_id_loop h rest (Suc i))"

definition find_object_by_id :: "CK_OBJECT_HANDLE \<Rightarrow> token \<Rightarrow> nat option" where
  "find_object_by_id h tok = find_by_id_loop h (tobjects tok) 0"

fun by_type_loop :: "CK_ATTRIBUTE list \<Rightarrow> CK_ATTRIBUTE_TYPE \<Rightarrow> CK_ATTRIBUTE option" where
  "by_type_loop [] atype = None"
| "by_type_loop (a # rest) atype = (if type a = atype then Some a else by_type_loop rest atype)"

definition object_get_attribute_by_type ::
    "tobject \<Rightarrow> CK_ATTRIBUTE_TYPE \<Rightarrow> CK_ATTRIBUTE option" where
  "object_get_attribute_by_type tobj atype = by_type_loop (atributes tobj) atype"

text \<open>The loop of \<^verbatim>\<open>object_get_attributes\<close> over the template entries still to do: the
  code returned and the entries as the loop leaves them.\<close>

fun get_attributes_loop :: "tobject \<Rightarrow> CK_ATTRIBUTE list \<Rightarrow> CK_RV \<times> CK_ATTRIBUTE list" where
  "get_attributes_loop tobj [] = (CKR_OK, [])"
| "get_attributes_loop tobj (t # rest) =
     (case object_get_attribute_by_type tobj (type t) of
        Some found \<Rightarrow>
          (case pValue t of
             None \<Rightarrow>
               (case get_attributes_loop tobj rest of
                  (rv, rest') \<Rightarrow> (rv, t\<lparr>ulValueLen := ulValueLen found\<rparr> # rest'))
           | Some buf \<Rightarrow>
               if ulValueLen found > ulValueLen t then (CKR_BUFFER_TOO_SMALL, t # rest)
               else
                 (case get_attributes_loop tobj rest of
                    (rv, rest') \<Rightarrow>
                      (rv, t\<lparr>ulValueLen := ulValueLen found,
                              pValue := Some (memcpy buf (bytes_at (pValue found))
                                                (ulValueLen found))\<rparr> # rest')))
      | None \<Rightarrow>
          (case get_attributes_loop tobj rest of
             (rv, rest') \<Rightarrow> (rv, t\<lparr>pValue := None, ulValueLen := 0\<rparr> # rest')))"

text \<open>\<^verbatim>\<open>object_get_attributes\<close> returns its code, the caller's template and the token.\<close>

definition object_get_attributes ::
    "token \<Rightarrow> CK_OBJECT_HANDLE \<Rightarrow> CK_ATTRIBUTE list \<Rightarrow> nat
       \<Rightarrow> CK_RV \<times> CK_ATTRIBUTE list \<times> token" where
  "object_get_attributes tok object templ count =
     (case find_object_by_id object tok of
        None \<Rightarrow> (CKR_OBJECT_HANDLE_INVALID, templ, tok)
      | Some i \<Rightarrow>
          (case get_attributes_loop (tobjects tok ! i) (take count templ) of
             (rv, done) \<Rightarrow> (rv, done @ drop count templ, tok)))"

section \<open>Appending attributes and mechanisms\<close>

text \<open>Modelled from the spec: \<^verbatim>\<open>utils_attr_deep_copy\<close> (\<^verbatim>\<open>utils.c\<close> is not among the
  sources). It deep-copies each new attribute's value buffer into the destination
  entries and fails with out-of-memory when a buffer cannot be allocated; the entries
  copied before the failure stay in the destination.\<close>

fun utils_attr_deep_copy ::
    "heap \<Rightarrow> CK_ATTRIBUTE list \<Rightarrow> CK_ATTRIBUTE list \<Rightarrow> CK_RV \<times> CK_ATTRIBUTE list \<times> heap" where
  "utils_attr_deep_copy h (a # attrs) (c # copy) =
     (case calloc h of
        (False, h') \<Rightarrow> (CKR_HOST_MEMORY, c # copy, h')
      | (True, h') \<Rightarrow>
          (case utils_attr_deep_copy h' attrs copy of
             (rv, copy', h'') \<Rightarrow>
               (rv, \<lparr>type = type a,
                     pValue = Some (take (ulValueLen a) (bytes_at (pValue a))),
                     ulValueLen = ulValueLen a\<rparr> # copy', h'')))"
| "utils_attr_deep_copy h attrs copy = (CKR_OK, copy, h)"

text \<open>Modelled from the spec: \<^verbatim>\<open>utils_mech_deep_copy\<close>, under the same contract as the
  attribute copy (\<^verbatim>\<open>utils.c\<close> is not among the sources).\<close>

fun utils_mech_deep_copy ::
    "heap \<Rightarrow> CK_MECHANISM list \<Rightarrow> CK_MECHANISM list \<Rightarrow> CK_RV \<times> CK_MECHANISM list \<times> heap" where
  "utils_mech_deep_copy h (m # mech) (c # copy) =
     (case calloc h of
        (False, h') \<Rightarrow> (CKR_HOST_MEMORY, c # copy, h')
      | (True, h') \<Rightarrow>
          (case utils_mech_deep_copy h' mech copy of
             (rv, copy', h'') \<Rightarrow>
               (rv, \<lparr>mechanism = mechanism m,
                     pParameter = Some (take (ulParameterLen m) (bytes_at (pParameter m))),
                     ulParameterLen = ulParameterLen m\<rparr> # copy', h'')))"
| "utils_mech_deep_copy h mech copy = (CKR_OK, copy, h)"

text \<open>An entry of the new storage after \<^verbatim>\<open>memset(..., 0, ...)\<close>.\<close>

definition zero_attribute :: CK_ATTRIBUTE where
  "zero_attribute = \<lparr>type = 0, pValue = None, ulValueLen = 0\<rparr>"

definition zero_mechanism :: CK_MECHANISM where
  "zero_mechanism = \<lparr>mechanism = 0, pParameter = None, ulParameterLen = 0\<rparr>"

text \<open>\<^verbatim>\<open>tobject_append_attrs\<close> returns its code, the object and the heap. It asserts
  \<^verbatim>\<open>attrs\<close> and reads the first entry before it looks at \<^verbatim>\<open>count\<close>: with nothing to
  read at \<^verbatim>\<open>attrs\<close> (the empty list; \<^verbatim>\<open>NULL\<close> is the case the assertion stops) the call
  does not return, which is \<open>None\<close>. After a successful \<^verbatim>\<open>realloc\<close> the store is
  \<open>newattrs\<close>: the old entries and \<open>count\<close> zeroed ones, which the deep copy fills from
  \<open>offset\<close> on.\<close>

definition tobject_append_attrs ::
    "heap \<Rightarrow> tobject \<Rightarrow> CK_ATTRIBUTE list \<Rightarrow> nat \<Rightarrow> (CK_RV \<times> tobject \<times> heap) option" where
  "tobject_append_attrs h tobj attrs count =
     (case attrs of
        [] \<Rightarrow> None
      | first # later \<Rightarrow>
          if ulValueLen first = 0 then Some (CKR_OK, tobj, h)
          else
            let offset = length (atributes tobj) in
            (case realloc h of
               (False, h') \<Rightarrow> Some (CKR_HOST_MEMORY, tobj, h')
             | (True, h') \<Rightarrow>
                 let newattrs = atributes tobj @ replicate count zero_attribute in
                 (case utils_attr_deep_copy h' (take count attrs) (drop offset newattrs) of
                    (rv, copy, h'') \<Rightarrow>
                      Some (rv, tobj\<lparr>atributes := take offset newattrs @ copy\<rparr>, h''))))"

text \<open>\<^verbatim>\<open>tobject_append_mechs\<close> returns its code, the object and the heap.\<close>

definition tobject_append_mechs ::
    "heap \<Rightarrow> tobject \<Rightarrow> CK_MECHANISM list \<Rightarrow> nat \<Rightarrow> CK_RV \<times> tobject \<times> heap" where
  "tobject_append_mechs h tobj mech count =
     (let offset = length (mechanisms tobj) in
      case realloc h of
        (False, h') \<Rightarrow> (CKR_HOST_MEMORY, tobj, h')
      | (True, h') \<Rightarrow>
          let newmechs = mechanisms tobj @ replicate count zero_mechanism in
          (case utils_mech_deep_copy h' (take count mech) (drop offset newmechs) of
             (rv, copy, h'') \<Rightarrow>
               (rv, tobj\<lparr>mechanisms := take offset newmechs @ copy\<rparr>, h'')))"

section \<open>Notions the properties are stated with\<close>

text \<open>The template matcher as a predicate: \<^verbatim>\<open>object_attr_filter\<close> returns the object
  rather than \<^verbatim>\<open>NULL\<close>.\<close>

definition accepts :: "CK_ATTRIBUTE list \<Rightarrow> nat \<Rightarrow> tobject \<Rightarrow> bool" where
  "accepts templ count tobj = (object_attr_filter tobj templ count \<noteq> None)"

text \<open>The positions, in the order of the token's list, of the objects the matcher
  accepts.\<close>

definition matching_positions :: "tobject list \<Rightarrow> CK_ATTRIBUTE list \<Rightarrow> nat \<Rightarrow> nat list" where
  "matching_positions objs templ count =
     filter (\<lambda>i. accepts templ count (objs ! i)) [0..<length objs]"

text \<open>What a call of \<^verbatim>\<open>object_find\<close> gives its caller: the first \<^verbatim>\<open>*object_count\<close>
  entries of the array.\<close>

definition returned :: "CK_OBJECT_HANDLE list option \<Rightarrow> nat option \<Rightarrow> CK_OBJECT_HANDLE list" where
  "returned object object_count =
     (case (object, object_count) of (Some arr, Some n) \<Rightarrow> take n arr | _ \<Rightarrow> [])"

text \<open>A caller that pages through a session: one call of \<^verbatim>\<open>object_find\<close> for each
  buffer, in order, with the buffer's size as \<^verbatim>\<open>max_object_count\<close>. The result is the
  code and the handles of every call, and the token after the last one.\<close>

fun find_calls ::
    "token \<Rightarrow> CK_OBJECT_HANDLE list list \<Rightarrow> (CK_RV \<times> CK_OBJECT_HANDLE list) list \<times> token" where
  "find_calls tok [] = ([], tok)"
| "find_calls tok (buf # bufs) =
     (case object_find tok (Some buf) (length buf) (Some 0) of
        (rv, tok', object, object_count) \<Rightarrow>
          (case find_calls tok' bufs of
             (rs, tok'') \<Rightarrow> ((rv, returned object object_count) # rs, tok'')))"

text \<open>The parameter rule of the mechanism check as the specification words it: no
  parameters for the no-parameter mechanism, equal hash and mask-generation tags for
  OAEP (of two parameter structs that are there), a requested parameter of 16 bytes
  for CBC, and otherwise equal lengths and identical bytes.\<close>

definition spec_param_rule :: "CK_MECHANISM \<Rightarrow> CK_MECHANISM \<Rightarrow> bool" where
  "spec_param_rule requested stored =
     (if mechanism requested = CKM_RSA_X_509 then True
      else if mechanism requested = CKM_RSA_PKCS_OAEP then
        (case (as_oaep_params (pParameter requested), as_oaep_params (pParameter stored)) of
           (Some r, Some s) \<Rightarrow> hashAlg r = hashAlg s \<and> mgf r = mgf s
         | _ \<Rightarrow> False)
      else if mechanism requested = CKM_AES_CBC then ulParameterLen requested = 16
      else ulParameterLen requested = ulParameterLen stored \<and>
           take (ulParameterLen stored) (bytes_at (pParameter requested)) =
           take (ulParameterLen stored) (bytes_at (pParameter stored)))"

text \<open>The parameters an OAEP request reads are there: when the requested mechanism is
  OAEP, its parameter and the parameter of every OAEP entry of the object point to a
  parameter struct. For any other requested mechanism nothing is asked.\<close>

definition oaep_params_present :: "tobject \<Rightarrow> CK_MECHANISM \<Rightarrow> bool" where
  "oaep_params_present tobj mech =
     (mechanism mech = CKM_RSA_PKCS_OAEP \<longrightarrow>
        as_oaep_params (pParameter mech) \<noteq> None \<and>
        (\<forall>m\<in>set (mechanisms tobj).
           mechanism m = CKM_RSA_PKCS_OAEP \<longrightarrow> as_oaep_params (pParameter m) \<noteq> None))"

text \<open>A template entry that asks for a present attribute into a buffer whose declared
  capacity is smaller than the attribute's length.\<close>

definition undersized :: "tobject \<Rightarrow> CK_ATTRIBUTE \<Rightarrow> bool" where
  "undersized tobj t =
     (case object_get_attribute_by_type tobj (type t) of
        None \<Rightarrow> False
      | Some found \<Rightarrow> pValue t \<noteq> None \<and> ulValueLen t < ulValueLen found)"

text \<open>What one pass of the loop of \<^verbatim>\<open>object_get_attributes\<close> writes to an entry that is
  not undersized.\<close>

definition entry_result :: "tobject \<Rightarrow> CK_ATTRIBUTE \<Rightarrow> CK_ATTRIBUTE" where
  "entry_result tobj t =
     (case object_get_attribute_by_type tobj (type t) of
        Some found \<Rightarrow>
          (case pValue t of
             None \<Rightarrow> t\<lparr>ulValueLen := ulValueLen found\<rparr>
           | Some buf \<Rightarrow>
               t\<lparr>ulValueLen := ulValueLen found,
                 pValue := Some (memcpy buf (bytes_at (pValue found)) (ulValueLen found))\<rparr>)
      | None \<Rightarrow> t\<lparr>pValue := None, ulValueLen := 0\<rparr>)"

subsection \<open>A token with two objects\<close>

text \<open>The scenario of the specification: a key with id 1 and a certificate with id 2,
  told apart by their class attribute (type 0). The key also has a label (type 3) and
  supports one mechanism; its handle field is 7, the certificate's is 8.\<close>

definition ex_class_key :: CK_ATTRIBUTE where
  "ex_class_key = \<lparr>type = 0, pValue = Some [75, 69, 89], ulValueLen = 3\<rparr>"

definition ex_class_cert :: CK_ATTRIBUTE where
  "ex_class_cert = \<lparr>type = 0, pValue = Some [67, 69, 82, 84], ulValueLen = 4\<rparr>"

definition ex_label :: CK_ATTRIBUTE where
  "ex_label = \<lparr>type = 3, pValue = Some [97], ulValueLen = 1\<rparr>"

definition ex_mech :: CK_MECHANISM where
  "ex_mech = \<lparr>mechanism = 1, pParameter = Some [5, 6], ulParameterLen = 2\<rparr>"

text \<open>An OAEP parameter struct (hash 0x250, mask generation 2, source 1, no source data)
  and an object that offers OAEP with it.\<close>

definition ex_oaep_mech :: CK_MECHANISM where
  "ex_oaep_mech =
     \<lparr>mechanism = CKM_RSA_PKCS_OAEP,
      pParameter = Some [80, 2, 0, 0, 0, 0, 0, 0, 2, 0, 0, 0, 0, 0, 0, 0,
                         1, 0, 0, 0, 0, 0, 0, 0, 0, 0, 0, 0, 0, 0, 0, 0,
                         0, 0, 0, 0, 0, 0, 0, 0],
      ulParameterLen = 40\<rparr>"

definition ex_oaep_key :: tobject where
  "ex_oaep_key = zero_tobject\<lparr>mechanisms := [ex_oaep_mech]\<rparr>"

definition ex_key :: tobject where
  "ex_key = tobject_set_handle
     (tobject_set_id
        (zero_tobject\<lparr>atributes := [ex_class_key, ex_label], mechanisms := [ex_mech]\<rparr>) 1) 7"

definition ex_cert :: tobject where
  "ex_cert = tobject_set_handle
     (tobject_set_id (zero_tobject\<lparr>atributes := [ex_class_cert]\<rparr>) 2) 8"

definition ex_token :: token where
  "ex_token = \<lparr>tobjects = [ex_key, ex_cert], opdata = None\<rparr>"

text \<open>A registry in which the certificate has been given the key's id, with a find
  session whose match list holds the certificate (position 1).\<close>

definition ex_twins :: token where
  "ex_twins =
     \<lparr>tobjects = [ex_key, tobject_set_id ex_cert 1],
      opdata = Some (operation_find, \<lparr>head = [1], cur = [1]\<rparr>)\<rparr>"

text \<open>A heap on which every request succeeds, before any request and after two.\<close>

definition ex_heap :: heap where
  "ex_heap = \<lparr>outcome = (\<lambda>n. True), used = 0\<rparr>"

definition ex_heap2 :: heap where
  "ex_heap2 = \<lparr>outcome = (\<lambda>n. True), used = 2\<rparr>"

text \<open>A heap on which the first request succeeds and every later one fails, before any
  request and after two.\<close>

definition ex_low :: heap where
  "ex_low = \<lparr>outcome = (\<lambda>n. n = 0), used = 0\<rparr>"

definition ex_low2 :: heap where
  "ex_low2 = \<lparr>outcome = (\<lambda>n. n = 0), used = 2\<rparr>"

text \<open>The token after \<^verbatim>\<open>object_find_init\<close> with the key's class as template.\<close>

definition ex_session :: token where
  "ex_session = ex_token\<lparr>opdata := Some (operation_find, \<lparr>head = [0], cur = [0]\<rparr>)\<rparr>"

section \<open>Facts for evaluating the example\<close>

lemmas ex_defs = ex_class_key_def ex_class_cert_def ex_label_def ex_mech_def ex_key_def
  ex_cert_def ex_token_def ex_session_def zero_tobject_def tobject_set_handle_def
  tobject_set_id_def ex_heap_def ex_heap2_def ex_low_def ex_low2_def ex_twins_def

lemmas eval_defs = object_attr_filter_def memcmp_is_0_def bytes_at_def entries_at_def
  calloc_def realloc_def token_opdata_is_active_def token_opdata_set_def token_opdata_get_def
  object_find_init_def object_find_def accepts_def returned_def find_object_by_id_def
  object_get_attributes_def object_get_attribute_by_type_def memcpy_def undersized_def
  check_pointer_rv_def

section \<open>Properties of the template matcher\<close>

lemma attr_match_iff:
  "attr_match search as \<longleftrightarrow>
     (\<exists>c\<in>set as. type search = type c \<and> ulValueLen search = ulValueLen c \<and>
        memcmp_is_0 (pValue c) (pValue search) (ulValueLen search))"
  by (induction as) auto

lemma filter_loop_Some_iff:
  "filter_loop tobj ts = Some tobj \<longleftrightarrow> (\<forall>s\<in>set ts. attr_match s (atributes tobj))"
  by (induction ts) auto

lemma filter_loop_None_iff:
  "filter_loop tobj ts \<noteq> None \<longleftrightarrow> (\<forall>s\<in>set ts. attr_match s (atributes tobj))"
  by (induction ts) auto

text \<open>
  C9. If the matcher accepts an object against a template \<open>T\<close> (its first \<open>c\<close>
  entries) and every entry of a template \<open>T'\<close> (its first \<open>c'\<close> entries) occurs in
  \<open>T\<close>, the matcher accepts the object against \<open>T'\<close>. The empty template, count 0,
  is accepted for every object.
\<close>

theorem attr_filter_subset_monotone:
  "(object_attr_filter tobj T c \<noteq> None \<and> set (take c' T') \<subseteq> set (take c T)
      \<longrightarrow> object_attr_filter tobj T' c' = Some tobj) \<and>
   object_attr_filter tobj T 0 = Some tobj"
proof (intro conjI impI)
  show "object_attr_filter tobj T 0 = Some tobj"
    by (simp add: object_attr_filter_def)
next
  assume a: "object_attr_filter tobj T c \<noteq> None \<and> set (take c' T') \<subseteq> set (take c T)"
  show "object_attr_filter tobj T' c' = Some tobj"
  proof (cases "c = 0")
    case True
    with a have "c' = 0 \<or> T' = []" by simp
    then have "filter_loop tobj (take c' T') = Some tobj" by auto
    then show ?thesis by (simp add: object_attr_filter_def)
  next
    case False
    with a have "filter_loop tobj (take c T) \<noteq> None"
      by (simp add: object_attr_filter_def del: not_None_eq)
    then have "\<forall>s\<in>set (take c T). attr_match s (atributes tobj)"
      by (simp only: filter_loop_None_iff)
    with a have "\<forall>s\<in>set (take c' T'). attr_match s (atributes tobj)" by blast
    then have "filter_loop tobj (take c' T') = Some tobj"
      by (simp add: filter_loop_Some_iff)
    then show ?thesis by (simp add: object_attr_filter_def)
  qed
qed

theorem attr_filter_subset_monotone_witness:
  "object_attr_filter ex_key [ex_class_key, ex_label] 2 \<noteq> None \<and>
   set (take 1 [ex_label]) \<subseteq> set (take 2 [ex_class_key, ex_label]) \<and>
   object_attr_filter ex_key [ex_label] 1 = Some ex_key \<and>
   object_attr_filter ex_cert [ex_label] 1 = None"
proof -
  have a: "object_attr_filter ex_key [ex_class_key, ex_label] 2 \<noteq> None"
    by (simp add: ex_defs eval_defs)
  have b: "set (take 1 [ex_label]) \<subseteq> set (take 2 [ex_class_key, ex_label])"
    by simp
  have c: "object_attr_filter ex_key [ex_label] 1 = Some ex_key"
    using attr_filter_subset_monotone
      [of ex_key "[ex_class_key, ex_label]" 2 1 "[ex_label]"] a b
    by blast
  have d: "object_attr_filter ex_cert [ex_label] 1 = None"
    by (simp add: ex_defs eval_defs)
  show ?thesis using a b c d by blast
qed

section \<open>Properties of the mechanism check\<close>

lemma mech_loop_invalid:
  "mech_loop ms mech g = Some CKR_MECHANISM_INVALID \<longleftrightarrow>
     \<not> g \<and> \<not> (\<exists>m\<in>set ms. mechanism m = mechanism mech)"
  by (induction ms arbitrary: g) (auto split: option.splits)

lemma oaep_supported_Some:
  "as_oaep_params requested \<noteq> None \<Longrightarrow> as_oaep_params got \<noteq> None \<Longrightarrow>
     object_CKM_RSA_PKCS_OAEP_params_supported requested got =
       Some (case (as_oaep_params requested, as_oaep_params got) of
               (Some r, Some s) \<Rightarrow> hashAlg r = hashAlg s \<and> mgf r = mgf s
             | _ \<Rightarrow> False)"
  by (auto simp: object_CKM_RSA_PKCS_OAEP_params_supported_def split: option.splits)

lemma mech_loop_step:
  assumes "mechanism mech = mechanism m"
    and "mechanism mech = CKM_RSA_PKCS_OAEP \<longrightarrow>
           as_oaep_params (pParameter mech) \<noteq> None \<and> as_oaep_params (pParameter m) \<noteq> None"
  shows "mech_loop (m # rest) mech g =
           (if spec_param_rule mech m then Some CKR_OK else mech_loop rest mech True)"
proof (cases "mechanism mech = CKM_RSA_PKCS_OAEP")
  case True
  have ne: "CKM_RSA_PKCS_OAEP \<noteq> CKM_RSA_X_509"
    by (simp add: CKM_RSA_PKCS_OAEP_def CKM_RSA_X_509_def)
  with True assms(2) have "object_CKM_RSA_PKCS_OAEP_params_supported (pParameter mech) (pParameter m) =
      Some (spec_param_rule mech m)"
    by (simp add: oaep_supported_Some spec_param_rule_def)
  with True ne assms(1) show ?thesis by simp
next
  case False
  with assms(1) show ?thesis
    by (auto simp: spec_param_rule_def memcmp_is_0_def object_CKM_AES_CBC_params_supported_def)
qed

lemma mech_loop_ok:
  assumes "mechanism mech = CKM_RSA_PKCS_OAEP \<longrightarrow>
      as_oaep_params (pParameter mech) \<noteq> None \<and>
      (\<forall>m\<in>set ms. mechanism m = CKM_RSA_PKCS_OAEP \<longrightarrow> as_oaep_params (pParameter m) \<noteq> None)"
  shows "mech_loop ms mech g = Some CKR_OK \<longleftrightarrow>
     (\<exists>m\<in>set ms. mechanism m = mechanism mech \<and> spec_param_rule mech m)"
  using assms
proof (induction ms arbitrary: g)
  case Nil
  then show ?case by simp
next
  case (Cons m rest)
  have ih: "mech_loop rest mech g' = Some CKR_OK \<longleftrightarrow>
      (\<exists>m\<in>set rest. mechanism m = mechanism mech \<and> spec_param_rule mech m)" for g'
    using Cons.prems by (intro Cons.IH) simp
  show ?case
  proof (cases "mechanism mech = mechanism m")
    case False
    then show ?thesis using ih [of g] by auto
  next
    case True
    have "mech_loop (m # rest) mech g =
        (if spec_param_rule mech m then Some CKR_OK else mech_loop rest mech True)"
      using True Cons.prems by (intro mech_loop_step) simp_all
    then show ?thesis using True ih [of True] by auto
  qed
qed

lemma mech_loop_cases:
  assumes "mechanism mech = CKM_RSA_PKCS_OAEP \<longrightarrow>
      as_oaep_params (pParameter mech) \<noteq> None \<and>
      (\<forall>m\<in>set ms. mechanism m = CKM_RSA_PKCS_OAEP \<longrightarrow> as_oaep_params (pParameter m) \<noteq> None)"
  shows "mech_loop ms mech g = Some CKR_OK \<or> mech_loop ms mech g = Some CKR_MECHANISM_INVALID \<or>
     mech_loop ms mech g = Some CKR_MECHANISM_PARAM_INVALID"
  using assms
proof (induction ms arbitrary: g)
  case Nil
  then show ?case by simp
next
  case (Cons m rest)
  have ih: "mech_loop rest mech g' = Some CKR_OK \<or>
      mech_loop rest mech g' = Some CKR_MECHANISM_INVALID \<or>
      mech_loop rest mech g' = Some CKR_MECHANISM_PARAM_INVALID" for g'
    using Cons.prems by (intro Cons.IH) simp
  show ?case
  proof (cases "mechanism mech = mechanism m")
    case False
    then show ?thesis using ih [of g] by simp
  next
    case True
    have "mech_loop (m # rest) mech g =
        (if spec_param_rule mech m then Some CKR_OK else mech_loop rest mech True)"
      using True Cons.prems by (intro mech_loop_step) simp_all
    then show ?thesis using ih [of True] by auto
  qed
qed

text \<open>
  C5, as the code has it. The mechanism check returns \<^verbatim>\<open>CKR_MECHANISM_INVALID\<close> (the
  mechanism is not offered) exactly when no entry of the object's mechanism list has
  the requested identifier, for every object and request. When the parameters an OAEP
  request reads are there, the check returns a code; it is
  \<^verbatim>\<open>CKR_MECHANISM_PARAM_INVALID\<close> exactly when some entry has the identifier and no such
  entry passes the parameter rule, and \<^verbatim>\<open>CKR_OK\<close> exactly when some entry has the
  identifier and passes the rule, wherever it stands in the list.
\<close>

theorem mech_is_supported_reasons:
  "(object_mech_is_supported tobj mech = Some CKR_MECHANISM_INVALID \<longleftrightarrow>
      \<not> (\<exists>m\<in>set (mechanisms tobj). mechanism m = mechanism mech)) \<and>
   (oaep_params_present tobj mech \<longrightarrow>
      object_mech_is_supported tobj mech \<noteq> None \<and>
      (object_mech_is_supported tobj mech = Some CKR_MECHANISM_PARAM_INVALID \<longleftrightarrow>
         (\<exists>m\<in>set (mechanisms tobj). mechanism m = mechanism mech) \<and>
         \<not> (\<exists>m\<in>set (mechanisms tobj). mechanism m = mechanism mech \<and> spec_param_rule mech m)) \<and>
      (object_mech_is_supported tobj mech = Some CKR_OK \<longleftrightarrow>
         (\<exists>m\<in>set (mechanisms tobj). mechanism m = mechanism mech \<and> spec_param_rule mech m)))"
proof (intro conjI impI)
  let ?r = "object_mech_is_supported tobj mech"
  show inv: "?r = Some CKR_MECHANISM_INVALID \<longleftrightarrow>
      \<not> (\<exists>m\<in>set (mechanisms tobj). mechanism m = mechanism mech)"
    by (simp add: object_mech_is_supported_def mech_loop_invalid)
  assume "oaep_params_present tobj mech"
  then have p: "mechanism mech = CKM_RSA_PKCS_OAEP \<longrightarrow>
      as_oaep_params (pParameter mech) \<noteq> None \<and>
      (\<forall>m\<in>set (mechanisms tobj).
         mechanism m = CKM_RSA_PKCS_OAEP \<longrightarrow> as_oaep_params (pParameter m) \<noteq> None)"
    by (simp only: oaep_params_present_def)
  have cases: "?r = Some CKR_OK \<or> ?r = Some CKR_MECHANISM_INVALID \<or>
      ?r = Some CKR_MECHANISM_PARAM_INVALID"
    unfolding object_mech_is_supported_def using p by (rule mech_loop_cases)
  show ok: "?r = Some CKR_OK \<longleftrightarrow>
      (\<exists>m\<in>set (mechanisms tobj). mechanism m = mechanism mech \<and> spec_param_rule mech m)"
    unfolding object_mech_is_supported_def using p by (rule mech_loop_ok)
  show "?r \<noteq> None" using cases by auto
  show "?r = Some CKR_MECHANISM_PARAM_INVALID \<longleftrightarrow>
      (\<exists>m\<in>set (mechanisms tobj). mechanism m = mechanism mech) \<and>
      \<not> (\<exists>m\<in>set (mechanisms tobj). mechanism m = mechanism mech \<and> spec_param_rule mech m)"
  proof (cases "?r = Some CKR_MECHANISM_PARAM_INVALID")
    case True
    then have "?r \<noteq> Some CKR_OK" "?r \<noteq> Some CKR_MECHANISM_INVALID" by simp_all
    with True ok inv show ?thesis by simp
  next
    case False
    with cases have "?r = Some CKR_OK \<or> ?r = Some CKR_MECHANISM_INVALID" by simp
    with False ok inv show ?thesis by auto
  qed
qed

text \<open>An OAEP request against the object that offers OAEP, both with the parameter
  struct, is supported. The key declares mechanism 1 with the parameter bytes 5, 6:
  mechanism 2 is not offered, mechanism 1 with the bytes 5, 7 is offered with other
  parameters, and mechanism 1 with the bytes 5, 6 is supported.\<close>

theorem mech_is_supported_reasons_witness:
  "oaep_params_present ex_oaep_key ex_oaep_mech \<and>
   object_mech_is_supported ex_oaep_key ex_oaep_mech = Some CKR_OK \<and>
   object_mech_is_supported ex_key
       \<lparr>mechanism = 2, pParameter = Some [5, 6], ulParameterLen = 2\<rparr>
     = Some CKR_MECHANISM_INVALID \<and>
   object_mech_is_supported ex_key
       \<lparr>mechanism = 1, pParameter = Some [5, 7], ulParameterLen = 2\<rparr>
     = Some CKR_MECHANISM_PARAM_INVALID \<and>
   object_mech_is_supported ex_key
       \<lparr>mechanism = 1, pParameter = Some [5, 6], ulParameterLen = 2\<rparr> = Some CKR_OK"
proof -
  have m: "mechanisms ex_key = [ex_mech]" by (simp add: ex_defs)
  have o: "mechanisms ex_oaep_key = [ex_oaep_mech]" by (simp add: ex_oaep_key_def)
  have n: "(1 :: CK_MECHANISM_TYPE) \<noteq> CKM_RSA_X_509" "(1 :: CK_MECHANISM_TYPE) \<noteq> CKM_RSA_PKCS_OAEP"
    "(1 :: CK_MECHANISM_TYPE) \<noteq> CKM_AES_CBC" "(2 :: CK_MECHANISM_TYPE) \<noteq> CKM_RSA_PKCS_OAEP"
    "CKM_RSA_PKCS_OAEP \<noteq> CKM_RSA_X_509"
    by (simp_all add: CKM_RSA_X_509_def CKM_RSA_PKCS_OAEP_def CKM_AES_CBC_def)
  have s: "as_oaep_params (pParameter ex_oaep_mech) \<noteq> None"
    by (simp add: ex_oaep_mech_def as_oaep_params_def)
  have p0: "oaep_params_present ex_oaep_key ex_oaep_mech"
    using s by (simp add: oaep_params_present_def o)
  have r0: "spec_param_rule ex_oaep_mech ex_oaep_mech"
    using s n by (auto simp: spec_param_rule_def ex_oaep_mech_def split: option.splits)
  have a0: "object_mech_is_supported ex_oaep_key ex_oaep_mech = Some CKR_OK"
    using mech_is_supported_reasons [of ex_oaep_key ex_oaep_mech] p0 r0 by (simp add: o)
  have p: "oaep_params_present ex_key \<lparr>mechanism = x, pParameter = y, ulParameterLen = z\<rparr>"
    if "x \<noteq> CKM_RSA_PKCS_OAEP" for x y z
    using that by (simp add: oaep_params_present_def)
  have a: "object_mech_is_supported ex_key
       \<lparr>mechanism = 2, pParameter = Some [5, 6], ulParameterLen = 2\<rparr> = Some CKR_MECHANISM_INVALID"
    using mech_is_supported_reasons
      [of ex_key "\<lparr>mechanism = 2, pParameter = Some [5, 6], ulParameterLen = 2\<rparr>"]
    by (simp add: m ex_mech_def)
  have b: "object_mech_is_supported ex_key
       \<lparr>mechanism = 1, pParameter = Some [5, 7], ulParameterLen = 2\<rparr>
     = Some CKR_MECHANISM_PARAM_INVALID"
    using mech_is_supported_reasons
      [of ex_key "\<lparr>mechanism = 1, pParameter = Some [5, 7], ulParameterLen = 2\<rparr>"]
      p [OF n(2)] n
    by (simp add: m ex_mech_def spec_param_rule_def bytes_at_def)
  have c: "object_mech_is_supported ex_key
       \<lparr>mechanism = 1, pParameter = Some [5, 6], ulParameterLen = 2\<rparr> = Some CKR_OK"
    using mech_is_supported_reasons
      [of ex_key "\<lparr>mechanism = 1, pParameter = Some [5, 6], ulParameterLen = 2\<rparr>"]
      p [OF n(2)] n
    by (simp add: m ex_mech_def spec_param_rule_def bytes_at_def)
  show ?thesis using p0 a0 a b c by blast
qed

text \<open>
  C5, as the claim has it, fails for a request the code can receive: OAEP with no
  parameter (a \<^verbatim>\<open>NULL\<close> pointer and length 0), against an object that offers OAEP. The
  code reads \<^verbatim>\<open>requested->hashAlg\<close> through the \<^verbatim>\<open>NULL\<close> pointer and returns none of the
  three results. The same happens when the stored entry has no parameter.
\<close>

theorem mech_is_supported_null_oaep_counterexample:
  "mechanisms ex_oaep_key = [ex_oaep_mech] \<and>
   mechanism ex_oaep_mech = CKM_RSA_PKCS_OAEP \<and>
   object_mech_is_supported ex_oaep_key
       \<lparr>mechanism = CKM_RSA_PKCS_OAEP, pParameter = None, ulParameterLen = 0\<rparr> = None \<and>
   object_mech_is_supported
       (zero_tobject\<lparr>mechanisms :=
          [\<lparr>mechanism = CKM_RSA_PKCS_OAEP, pParameter = None, ulParameterLen = 0\<rparr>]\<rparr>)
       ex_oaep_mech = None"
  by (simp add: ex_oaep_key_def ex_oaep_mech_def zero_tobject_def object_mech_is_supported_def
        object_CKM_RSA_PKCS_OAEP_params_supported_def as_oaep_params_def
        CKM_RSA_X_509_def CKM_RSA_PKCS_OAEP_def)

section \<open>Properties of the append operations\<close>

text \<open>
  C8. When the first entry of a non-empty input sequence has length zero,
  \<^verbatim>\<open>tobject_append_attrs\<close> returns \<^verbatim>\<open>CKR_OK\<close>, allocates nothing (the heap is the one it
  was given) and leaves the object as it was, whatever the later entries and the count
  are.
\<close>

theorem append_attrs_first_empty_noop:
  "ulValueLen first = 0 \<Longrightarrow>
     tobject_append_attrs h tobj (first # later) count = Some (CKR_OK, tobj, h)"
  by (simp add: tobject_append_attrs_def)

theorem append_attrs_first_empty_noop_witness:
  "ulValueLen \<lparr>type = 3, pValue = None, ulValueLen = 0\<rparr> = 0 \<and>
   tobject_append_attrs ex_low ex_key [\<lparr>type = 3, pValue = None, ulValueLen = 0\<rparr>, ex_label] 2
     = Some (CKR_OK, ex_key, ex_low)"
proof -
  have a: "ulValueLen \<lparr>type = 3, pValue = None, ulValueLen = 0\<rparr> = 0" by simp
  from append_attrs_first_empty_noop [OF a, of ex_low ex_key "[ex_label]" 2] a
  show ?thesis by blast
qed

text \<open>
  C2. The claim is that an append that fails with \<^verbatim>\<open>CKR_HOST_MEMORY\<close> leaves the store
  as it was. It does when \<^verbatim>\<open>realloc\<close> fails. When \<^verbatim>\<open>realloc\<close> succeeds the count and the
  storage are replaced before the deep copy runs, and the code of the deep copy is
  returned as it is: on an object with an empty store, with one attribute to append, a
  heap on which the first request succeeds and the second fails gives \<^verbatim>\<open>CKR_HOST_MEMORY\<close>
  and a store of one zeroed entry. The mechanism list behaves the same way.
\<close>

theorem append_fails_after_growth:
  "tobject_append_attrs ex_low zero_tobject
      [\<lparr>type = 1, pValue = Some [1, 2], ulValueLen = 2\<rparr>] 1 =
     Some (CKR_HOST_MEMORY, zero_tobject\<lparr>atributes := [zero_attribute]\<rparr>, ex_low2) \<and>
   tobject_append_mechs ex_low zero_tobject
      [\<lparr>mechanism = 1, pParameter = Some [1, 2], ulParameterLen = 2\<rparr>] 1 =
     (CKR_HOST_MEMORY, zero_tobject\<lparr>mechanisms := [zero_mechanism]\<rparr>, ex_low2) \<and>
   atributes (zero_tobject\<lparr>atributes := [zero_attribute]\<rparr>) \<noteq> atributes zero_tobject \<and>
   mechanisms (zero_tobject\<lparr>mechanisms := [zero_mechanism]\<rparr>) \<noteq> mechanisms zero_tobject"
  by (simp add: tobject_append_attrs_def tobject_append_mechs_def realloc_def calloc_def
        zero_tobject_def ex_low_def ex_low2_def)

text \<open>When \<^verbatim>\<open>realloc\<close> itself fails, both operations return \<^verbatim>\<open>CKR_HOST_MEMORY\<close> and
  the object is unchanged.\<close>

lemma append_realloc_fails:
  "realloc h = (False, h') \<Longrightarrow> ulValueLen first \<noteq> 0 \<Longrightarrow>
     tobject_append_attrs h tobj (first # later) count = Some (CKR_HOST_MEMORY, tobj, h') \<and>
     tobject_append_mechs h tobj mech count = (CKR_HOST_MEMORY, tobj, h')"
  by (simp add: tobject_append_attrs_def tobject_append_mechs_def)

section \<open>Properties of the find session\<close>

subsection \<open>The match list\<close>

lemma matching_positions_Cons:
  "matching_positions (tobj # rest) templ count =
     (if accepts templ count tobj then 0 # map Suc (matching_positions rest templ count)
      else map Suc (matching_positions rest templ count))"
proof -
  have "[0..<length (tobj # rest)] = 0 # map Suc [0..<length rest]"
    by (simp add: upt_conv_Cons map_Suc_upt del: upt_Suc)
  then show ?thesis
    by (simp add: matching_positions_def filter_map comp_def del: upt_Suc)
qed

lemma nth_matching_positions:
  "map (\<lambda>i. objs ! i) (matching_positions objs templ count) = filter (accepts templ count) objs"
proof (induction objs)
  case Nil
  then show ?case by (simp add: matching_positions_def)
next
  case (Cons tobj rest)
  then show ?case by (simp add: matching_positions_Cons comp_def)
qed

lemma build_matches_ok:
  "build_matches h objs i templ count ms = (CKR_OK, ms', h') \<Longrightarrow>
     ms' = ms @ map (\<lambda>j. i + j) (matching_positions objs templ count)"
proof (induction objs arbitrary: h i ms)
  case Nil
  then show ?case by (simp add: matching_positions_def)
next
  case (Cons tobj rest)
  show ?case
  proof (cases "object_attr_filter tobj templ count")
    case None
    with Cons.prems have "build_matches h rest (Suc i) templ count ms = (CKR_OK, ms', h')"
      by simp
    from Cons.IH [OF this] None show ?thesis
      by (simp add: matching_positions_Cons accepts_def comp_def)
  next
    case (Some m)
    with Cons.prems obtain h1 where
      b: "build_matches h1 rest (Suc i) templ count (ms @ [i]) = (CKR_OK, ms', h')"
      by (auto split: prod.splits bool.splits)
    from Cons.IH [OF b] Some show ?thesis
      by (simp add: matching_positions_Cons accepts_def comp_def)
  qed
qed

lemma find_init_ok:
  assumes "object_find_init h tok templ count = (CKR_OK, tok1, h1)"
  shows "tok1 = tok\<lparr>opdata := Some (operation_find,
            \<lparr>head = matching_positions (tobjects tok) (entries_at templ) count,
             cur = matching_positions (tobjects tok) (entries_at templ) count\<rparr>)\<rparr>"
proof (cases "tobjects tok = []")
  case True
  with assms show ?thesis
    by (auto simp: object_find_init_def token_opdata_set_def matching_positions_def
          check_pointer_rv_def split: if_splits prod.splits bool.splits)
next
  case False
  from assms obtain h0 where c: "calloc h = (True, h0)"
    by (auto simp: object_find_init_def check_pointer_rv_def
          split: if_splits prod.splits bool.splits)
  obtain rv ms h2 where
    b: "build_matches h0 (tobjects tok) 0 (entries_at templ) count [] = (rv, ms, h2)"
    by (metis prod_cases3)
  have rv: "rv = CKR_OK" using assms c b False
    by (cases rv) (auto simp: object_find_init_def check_pointer_rv_def split: if_splits)
  from build_matches_ok [OF b [unfolded rv]]
  have ms: "ms = matching_positions (tobjects tok) (entries_at templ) count" by simp
  show ?thesis using assms c b False rv ms
    by (auto simp: object_find_init_def token_opdata_set_def check_pointer_rv_def
          split: if_splits)
qed

subsection \<open>Paging\<close>

lemma find_loop_result:
  "m \<le> length arr \<Longrightarrow> k \<le> m \<Longrightarrow>
     find_loop objs cs arr k m =
       (drop (m - k) cs,
        take k arr @ map (\<lambda>c. ucast (id' (objs ! c))) (take (m - k) cs)
          @ drop (k + min (m - k) (length cs)) arr,
        k + min (m - k) (length cs))"
proof (induction cs arbitrary: arr k)
  case Nil
  then show ?case by simp
next
  case (Cons c cs)
  show ?case
  proof (cases "k < m")
    case False
    with Cons.prems show ?thesis by simp
  next
    case True
    then have k: "k < length arr" using Cons.prems by simp
    have t: "take (Suc k) (arr[k := ucast (id' (objs ! c))]) = take k arr @ [ucast (id' (objs ! c))]"
      using k by (simp add: take_Suc_conv_app_nth)
    have m: "m - k = Suc (m - Suc k)" using True by simp
    have "find_loop objs (c # cs) arr k m =
        find_loop objs cs (arr[k := ucast (id' (objs ! c))]) (Suc k) m"
      using True by simp
    also have "\<dots> = (drop (m - Suc k) cs,
        take (Suc k) (arr[k := ucast (id' (objs ! c))])
          @ map (\<lambda>c. ucast (id' (objs ! c))) (take (m - Suc k) cs)
          @ drop (Suc k + min (m - Suc k) (length cs)) (arr[k := ucast (id' (objs ! c))]),
        Suc k + min (m - Suc k) (length cs))"
      using Cons.prems True by (intro Cons.IH) simp_all
    finally show ?thesis using t m by simp
  qed
qed

lemma object_find_active:
  assumes "opdata tok = Some (operation_find, fd)" and "m \<le> length arr"
  shows "object_find tok (Some arr) m (Some n) =
     (CKR_OK, tok\<lparr>opdata := Some (operation_find, fd\<lparr>cur := drop m (cur fd)\<rparr>)\<rparr>,
      Some (map (\<lambda>c. ucast (id' (tobjects tok ! c))) (take m (cur fd))
              @ drop (min m (length (cur fd))) arr),
      Some (min m (length (cur fd))))"
  using assms find_loop_result [of m arr 0 "tobjects tok" "cur fd"]
  by (simp add: object_find_def token_opdata_get_def)

lemma object_find_exhausted:
  assumes "opdata tok = Some (operation_find, fd)" and "cur fd = []"
  shows "object_find tok (Some buf) m (Some n) = (CKR_OK, tok, Some buf, Some 0)"
  using assms by (simp add: object_find_def token_opdata_get_def)

lemma find_calls_result:
  "opdata tok = Some (operation_find, fd) \<Longrightarrow>
     map fst (fst (find_calls tok bufs)) = replicate (length bufs) CKR_OK \<and>
     concat (map snd (fst (find_calls tok bufs))) =
       map (\<lambda>c. ucast (id' (tobjects tok ! c))) (take (sum_list (map length bufs)) (cur fd)) \<and>
     snd (find_calls tok bufs) =
       tok\<lparr>opdata := Some (operation_find,
         fd\<lparr>cur := drop (sum_list (map length bufs)) (cur fd)\<rparr>)\<rparr>"
proof (induction bufs arbitrary: tok fd)
  case Nil
  then show ?case by simp
next
  case (Cons buf bufs)
  let ?fd' = "fd\<lparr>cur := drop (length buf) (cur fd)\<rparr>"
  let ?tok' = "tok\<lparr>opdata := Some (operation_find, ?fd')\<rparr>"
  let ?f = "\<lambda>c. ucast (id' (tobjects tok ! c)) :: CK_OBJECT_HANDLE"
  have f: "object_find tok (Some buf) (length buf) (Some 0) =
     (CKR_OK, ?tok', Some (map ?f (take (length buf) (cur fd))
              @ drop (min (length buf) (length (cur fd))) buf),
      Some (min (length buf) (length (cur fd))))"
    using Cons.prems by (intro object_find_active) simp_all
  have r: "returned (Some (map ?f (take (length buf) (cur fd))
              @ drop (min (length buf) (length (cur fd))) buf))
            (Some (min (length buf) (length (cur fd)))) = map ?f (take (length buf) (cur fd))"
    by (simp add: returned_def)
  have o: "opdata ?tok' = Some (operation_find, ?fd')" by simp
  note ih = Cons.IH [OF o]
  have c: "drop (sum_list (map length bufs)) (drop (length buf) (cur fd)) =
      drop (length buf + sum_list (map length bufs)) (cur fd)"
    by (simp add: add.commute)
  have "map fst (fst (find_calls tok (buf # bufs))) = replicate (length (buf # bufs)) CKR_OK"
    using f ih by (simp add: split_beta)
  moreover have "concat (map snd (fst (find_calls tok (buf # bufs)))) =
      map ?f (take (sum_list (map length (buf # bufs))) (cur fd))"
    using f r ih by (simp add: split_beta take_add)
  moreover have "snd (find_calls tok (buf # bufs)) =
      tok\<lparr>opdata := Some (operation_find,
        fd\<lparr>cur := drop (sum_list (map length (buf # bufs))) (cur fd)\<rparr>)\<rparr>"
    using f ih c by (simp add: split_beta del: drop_drop)
  ultimately show ?case by blast
qed

text \<open>
  C1. After \<^verbatim>\<open>object_find_init\<close> has returned \<^verbatim>\<open>CKR_OK\<close>, the session holds the match
  sequence: the objects of the registry that the matcher accepts, in registry order.
  Whatever the page sizes, every \<^verbatim>\<open>object_find\<close> call returns \<^verbatim>\<open>CKR_OK\<close>, and the
  handles the calls return, concatenated in call order, are the ids of the match
  sequence, cut at the sum of the page sizes: nothing twice, nothing left out. Once the
  pages cover the sequence, the concatenation is the whole sequence and a further call
  returns \<^verbatim>\<open>CKR_OK\<close> with count 0, leaving array and token as they are.
\<close>

theorem find_pages_cover_matches:
  assumes "object_find_init h tok templ count = (CKR_OK, tok1, h1)"
  shows "tobjects tok1 = tobjects tok \<and>
     opdata tok1 = Some (operation_find,
        \<lparr>head = matching_positions (tobjects tok) (entries_at templ) count,
         cur = matching_positions (tobjects tok) (entries_at templ) count\<rparr>) \<and>
     map fst (fst (find_calls tok1 bufs)) = replicate (length bufs) CKR_OK \<and>
     concat (map snd (fst (find_calls tok1 bufs))) =
       take (sum_list (map length bufs))
         (map (\<lambda>tobj. ucast (id' tobj))
            (filter (accepts (entries_at templ) count) (tobjects tok))) \<and>
     (length (filter (accepts (entries_at templ) count) (tobjects tok))
          \<le> sum_list (map length bufs) \<longrightarrow>
        concat (map snd (fst (find_calls tok1 bufs))) =
          map (\<lambda>tobj. ucast (id' tobj))
            (filter (accepts (entries_at templ) count) (tobjects tok)) \<and>
        object_find (snd (find_calls tok1 bufs)) (Some buf) m (Some n) =
          (CKR_OK, snd (find_calls tok1 bufs), Some buf, Some 0))"
proof -
  let ?mp = "matching_positions (tobjects tok) (entries_at templ) count"
  let ?fd = "\<lparr>head = ?mp, cur = ?mp\<rparr>"
  let ?N = "sum_list (map length bufs)"
  let ?ids = "map (\<lambda>tobj. ucast (id' tobj) :: CK_OBJECT_HANDLE)
                (filter (accepts (entries_at templ) count) (tobjects tok))"
  have tok1: "tok1 = tok\<lparr>opdata := Some (operation_find, ?fd)\<rparr>"
    using assms by (rule find_init_ok)
  then have objs: "tobjects tok1 = tobjects tok"
    and op: "opdata tok1 = Some (operation_find, ?fd)"
    by simp_all
  have ids: "map (\<lambda>c. ucast (id' (tobjects tok1 ! c)) :: CK_OBJECT_HANDLE) ?mp = ?ids"
  proof -
    have "map (\<lambda>c. ucast (id' (tobjects tok ! c)) :: CK_OBJECT_HANDLE) ?mp =
        map (\<lambda>tobj. ucast (id' tobj)) (map (\<lambda>i. tobjects tok ! i) ?mp)"
      by (simp add: comp_def)
    then show ?thesis by (simp add: objs nth_matching_positions)
  qed
  note fc = find_calls_result [OF op, of bufs]
  have rvs: "map fst (fst (find_calls tok1 bufs)) = replicate (length bufs) CKR_OK"
    using fc by simp
  have "concat (map snd (fst (find_calls tok1 bufs))) =
      map (\<lambda>c. ucast (id' (tobjects tok1 ! c))) (take ?N ?mp)"
    using fc by simp
  also have "\<dots> = take ?N (map (\<lambda>c. ucast (id' (tobjects tok1 ! c))) ?mp)"
    by (simp only: take_map)
  finally have pages: "concat (map snd (fst (find_calls tok1 bufs))) = take ?N ?ids"
    by (simp only: ids)
  have last: "object_find (snd (find_calls tok1 bufs)) (Some buf) m (Some n) =
          (CKR_OK, snd (find_calls tok1 bufs), Some buf, Some 0)"
    if "length ?ids \<le> ?N"
  proof -
    have "length ?mp = length ?ids" using ids by (metis length_map)
    then have e: "drop ?N ?mp = []" using that by simp
    have s: "snd (find_calls tok1 bufs) =
        tok1\<lparr>opdata := Some (operation_find, ?fd\<lparr>cur := drop ?N (cur ?fd)\<rparr>)\<rparr>"
      using fc by simp
    show ?thesis
      by (rule object_find_exhausted [where fd = "?fd\<lparr>cur := drop ?N (cur ?fd)\<rparr>"])
         (simp_all add: s e)
  qed
  show ?thesis using objs op rvs pages last by simp
qed

text \<open>On the example: the template is the key's class, the caller asks for one page
  of two handles and gets the key's id, then for a page of three and gets none.\<close>

theorem find_pages_cover_matches_witness:
  "object_find_init ex_heap ex_token (Some [ex_class_key]) 1 = (CKR_OK, ex_session, ex_heap2) \<and>
   filter (accepts (entries_at (Some [ex_class_key])) 1) (tobjects ex_token) = [ex_key] \<and>
   concat (map snd (fst (find_calls ex_session [[0, 0]]))) = [1] \<and>
   object_find (snd (find_calls ex_session [[0, 0]])) (Some [9, 9, 9]) 3 (Some 5) =
     (CKR_OK, snd (find_calls ex_session [[0, 0]]), Some [9, 9, 9], Some 0)"
proof -
  have i: "object_find_init ex_heap ex_token (Some [ex_class_key]) 1 = (CKR_OK, ex_session, ex_heap2)"
    by (simp add: ex_defs eval_defs)
  have f: "filter (accepts (entries_at (Some [ex_class_key])) 1) (tobjects ex_token) = [ex_key]"
    by (simp add: ex_defs eval_defs)
  have k: "(ucast (id' ex_key) :: CK_OBJECT_HANDLE) = 1"
    by (simp add: ex_defs)
  have l: "length [ex_key] \<le> sum_list (map length [[0, 0 :: CK_OBJECT_HANDLE]])"
    by simp
  have m: "map (\<lambda>tobj. ucast (id' tobj) :: CK_OBJECT_HANDLE) [ex_key] = [1]"
    by (simp add: k)
  note t = find_pages_cover_matches [OF i, of "[[0, 0]]" "[9, 9, 9]" 3 5, unfolded f]
  from t l have "concat (map snd (fst (find_calls ex_session [[0, 0]]))) =
        map (\<lambda>tobj. ucast (id' tobj)) [ex_key] \<and>
      object_find (snd (find_calls ex_session [[0, 0]])) (Some [9, 9, 9]) 3 (Some 5) =
        (CKR_OK, snd (find_calls ex_session [[0, 0]]), Some [9, 9, 9], Some 0)"
    by blast
  with i f m show ?thesis by simp
qed

subsection \<open>The values written and the handle lookup\<close>

lemma ucast_id_inj:
  "(ucast (x :: 32 word) :: CK_OBJECT_HANDLE) = ucast (y :: 32 word) \<longleftrightarrow> x = y"
proof
  assume a: "(ucast x :: CK_OBJECT_HANDLE) = ucast y"
  have up: "is_up (ucast :: 32 word \<Rightarrow> 64 word)" by (simp add: is_up)
  have "x = ucast (ucast x :: 64 word)" using ucast_up_ucast_id [OF up] by simp
  also have "\<dots> = ucast (ucast y :: 64 word)" using a by simp
  also have "\<dots> = y" using ucast_up_ucast_id [OF up] by simp
  finally show "x = y" .
qed simp

lemma find_by_id_loop_distinct:
  "p < length objs \<Longrightarrow> distinct (map id' objs) \<Longrightarrow>
     find_by_id_loop (ucast (id' (objs ! p))) objs i = Some (i + p)"
proof (induction objs arbitrary: i p)
  case Nil
  then show ?case by simp
next
  case (Cons tobj rest)
  show ?case
  proof (cases p)
    case 0
    then show ?thesis by simp
  next
    case (Suc q)
    with Cons.prems have q: "q < length rest" and d: "distinct (map id' rest)"
      and notin: "id' tobj \<notin> id' ` set rest"
      by auto
    have n: "id' (rest ! q) \<noteq> id' tobj"
    proof
      assume e: "id' (rest ! q) = id' tobj"
      have "id' (rest ! q) \<in> id' ` set rest" using q by (intro imageI nth_mem)
      with e notin show False by simp
    qed
    from Cons.IH [OF q d, of "Suc i"] n Suc show ?thesis
      by (simp add: ucast_id_inj)
  qed
qed

text \<open>
  C3, as the code has it. In every active find session, a call of \<^verbatim>\<open>object_find\<close>
  with room for \<^verbatim>\<open>max_object_count\<close> handles returns \<^verbatim>\<open>CKR_OK\<close> and writes, for each
  object it reports, the object's \<^verbatim>\<open>id\<close> field: the field \<^verbatim>\<open>tobject_set_id\<close> assigns and
  \<^verbatim>\<open>tobject_set_handle\<close> leaves alone. When the reference points into the registry and
  the ids of the registry are pairwise distinct, \<^verbatim>\<open>find_object_by_id\<close> resolves the
  value written to that same object, so \<^verbatim>\<open>object_get_attributes\<close> finds it.
\<close>

theorem find_writes_object_id:
  assumes "opdata tok = Some (operation_find, fd)"
    and "max_object_count \<le> length arr"
  shows "\<exists>tok' arr'.
      object_find tok (Some arr) max_object_count (Some n) =
        (CKR_OK, tok', Some arr', Some (min max_object_count (length (cur fd)))) \<and>
      (\<forall>j < min max_object_count (length (cur fd)).
         arr' ! j = ucast (id' (tobjects tok ! (cur fd ! j))) \<and>
         (cur fd ! j < length (tobjects tok) \<and> distinct (map id' (tobjects tok)) \<longrightarrow>
            find_object_by_id (arr' ! j) tok = Some (cur fd ! j) \<and>
            fst (object_get_attributes tok (arr' ! j) [] 0) = CKR_OK)) \<and>
      id' (tobject_set_handle tobj v) = id' tobj \<and>
      id' (tobject_set_id tobj w) = w"
proof -
  let ?f = "\<lambda>c. ucast (id' (tobjects tok ! c)) :: CK_OBJECT_HANDLE"
  let ?n = "min max_object_count (length (cur fd))"
  let ?arr' = "map ?f (take max_object_count (cur fd)) @ drop ?n arr"
  have f: "object_find tok (Some arr) max_object_count (Some n) =
     (CKR_OK, tok\<lparr>opdata := Some (operation_find, fd\<lparr>cur := drop max_object_count (cur fd)\<rparr>)\<rparr>,
      Some ?arr', Some ?n)"
    using assms(1,2) by (rule object_find_active)
  have each: "?arr' ! j = ?f (cur fd ! j) \<and>
      (cur fd ! j < length (tobjects tok) \<and> distinct (map id' (tobjects tok)) \<longrightarrow>
         find_object_by_id (?arr' ! j) tok = Some (cur fd ! j) \<and>
         fst (object_get_attributes tok (?arr' ! j) [] 0) = CKR_OK)" if j: "j < ?n" for j
  proof (intro conjI impI)
    show v: "?arr' ! j = ?f (cur fd ! j)" using j by (simp add: nth_append)
    assume a: "cur fd ! j < length (tobjects tok) \<and> distinct (map id' (tobjects tok))"
    then have "find_by_id_loop (?f (cur fd ! j)) (tobjects tok) 0 = Some (0 + cur fd ! j)"
      by (intro find_by_id_loop_distinct) simp_all
    then have r: "find_object_by_id (?f (cur fd ! j)) tok = Some (cur fd ! j)"
      by (simp add: find_object_by_id_def)
    show "find_object_by_id (?arr' ! j) tok = Some (cur fd ! j)"
      using v r by simp
    show "fst (object_get_attributes tok (?arr' ! j) [] 0) = CKR_OK"
      using v r by (simp add: object_get_attributes_def)
  qed
  have all: "\<forall>j < ?n. ?arr' ! j = ?f (cur fd ! j) \<and>
      (cur fd ! j < length (tobjects tok) \<and> distinct (map id' (tobjects tok)) \<longrightarrow>
         find_object_by_id (?arr' ! j) tok = Some (cur fd ! j) \<and>
         fst (object_get_attributes tok (?arr' ! j) [] 0) = CKR_OK)"
    using each by blast
  have s: "id' (tobject_set_handle tobj v) = id' tobj \<and> id' (tobject_set_id tobj w) = w"
    by (simp add: tobject_set_handle_def tobject_set_id_def)
  show ?thesis using f all s by blast
qed

theorem find_writes_object_id_witness:
  "opdata ex_session = Some (operation_find, \<lparr>head = [0], cur = [0]\<rparr>) \<and>
   (1 :: nat) \<le> length [9 :: CK_OBJECT_HANDLE] \<and>
   distinct (map id' (tobjects ex_session)) \<and>
   (\<exists>tok' arr'.
      object_find ex_session (Some [9]) 1 (Some 5) = (CKR_OK, tok', Some arr', Some 1) \<and>
      arr' ! 0 = ucast (id' (tobjects ex_session ! 0)) \<and>
      find_object_by_id (arr' ! 0) ex_session = Some 0)"
proof -
  let ?fd = "\<lparr>head = [0], cur = [0 :: nat]\<rparr>"
  have a: "opdata ex_session = Some (operation_find, ?fd)"
    by (simp add: ex_defs)
  have b: "(1 :: nat) \<le> length [9 :: CK_OBJECT_HANDLE]" by simp
  have c: "cur ?fd ! 0 < length (tobjects ex_session)"
    by (simp add: ex_defs)
  have d: "distinct (map id' (tobjects ex_session))"
    by (simp add: ex_defs)
  from find_writes_object_id [OF a b, of 5] obtain tok' arr' where
    f: "object_find ex_session (Some [9]) 1 (Some 5) =
          (CKR_OK, tok', Some arr', Some (min 1 (length (cur ?fd))))"
    and e: "\<forall>j < min 1 (length (cur ?fd)).
         arr' ! j = ucast (id' (tobjects ex_session ! (cur ?fd ! j))) \<and>
         (cur ?fd ! j < length (tobjects ex_session) \<and>
          distinct (map id' (tobjects ex_session)) \<longrightarrow>
            find_object_by_id (arr' ! j) ex_session = Some (cur ?fd ! j) \<and>
            fst (object_get_attributes ex_session (arr' ! j) [] 0) = CKR_OK)"
    by blast
  have f': "object_find ex_session (Some [9]) 1 (Some 5) = (CKR_OK, tok', Some arr', Some 1)"
    using f by simp
  have z: "(0 :: nat) < min 1 (length (cur ?fd))" by simp
  from e z have e0: "arr' ! 0 = ucast (id' (tobjects ex_session ! (cur ?fd ! 0))) \<and>
         (cur ?fd ! 0 < length (tobjects ex_session) \<and>
          distinct (map id' (tobjects ex_session)) \<longrightarrow>
            find_object_by_id (arr' ! 0) ex_session = Some (cur ?fd ! 0) \<and>
            fst (object_get_attributes ex_session (arr' ! 0) [] 0) = CKR_OK)"
    by blast
  with c d have g: "arr' ! 0 = ucast (id' (tobjects ex_session ! (cur ?fd ! 0))) \<and>
      find_object_by_id (arr' ! 0) ex_session = Some (cur ?fd ! 0)"
    by blast
  have c0: "cur ?fd ! 0 = 0" by simp
  have "arr' ! 0 = ucast (id' (tobjects ex_session ! 0)) \<and>
      find_object_by_id (arr' ! 0) ex_session = Some 0"
    using g [unfolded c0] by blast
  with a b d f' show ?thesis by blast
qed

text \<open>
  C3, as the claim has it, fails twice. The value written is not the field the handle
  setter assigns: the key got id 1 from \<^verbatim>\<open>tobject_set_id\<close> and handle 7 from
  \<^verbatim>\<open>tobject_set_handle\<close>; the session on the key reports 1, and 7 does not resolve to
  any object. And the value written need not resolve to the object it was read from:
  when the certificate at position 1 carries the key's id 1, the session on the
  certificate reports 1, which resolves to the key at position 0.
\<close>

theorem find_writes_handle_counterexample:
  "object_find ex_session (Some [9]) 1 (Some 5) =
     (CKR_OK, ex_token\<lparr>opdata := Some (operation_find, \<lparr>head = [0], cur = []\<rparr>)\<rparr>,
      Some [1], Some 1) \<and>
   cur \<lparr>head = [0], cur = [0 :: nat]\<rparr> ! 0 = 0 \<and>
   tobjects ex_session ! 0 = ex_key \<and>
   ex_key = tobject_set_handle
     (tobject_set_id
        (zero_tobject\<lparr>atributes := [ex_class_key, ex_label], mechanisms := [ex_mech]\<rparr>) 1) 7 \<and>
   handle ex_key = 7 \<and>
   (1 :: CK_OBJECT_HANDLE) \<noteq> ucast (handle ex_key) \<and>
   object_get_attributes ex_session (ucast (handle ex_key)) [] 0 =
     (CKR_OBJECT_HANDLE_INVALID, [], ex_session) \<and>
   opdata ex_twins = Some (operation_find, \<lparr>head = [1], cur = [1]\<rparr>) \<and>
   object_find ex_twins (Some [9]) 1 (Some 5) =
     (CKR_OK, ex_twins\<lparr>opdata := Some (operation_find, \<lparr>head = [1], cur = []\<rparr>)\<rparr>,
      Some [1], Some 1) \<and>
   find_object_by_id 1 ex_twins = Some 0 \<and>
   (0 :: nat) \<noteq> 1"
  by (simp add: ex_defs eval_defs)

subsection \<open>One operation at a time\<close>

lemma find_init_ok_active:
  "object_find_init h tok templ count = (CKR_OK, tok1, h1) \<Longrightarrow> token_opdata_is_active tok1"
  by (auto simp: object_find_init_def token_opdata_is_active_def token_opdata_set_def
        check_pointer_rv_def split: if_splits prod.splits bool.splits CK_RV.splits)

lemma object_find_keeps_active:
  "token_opdata_is_active tok \<Longrightarrow>
     token_opdata_is_active (fst (snd (object_find tok object m oc)))"
  by (auto simp: object_find_def token_opdata_is_active_def token_opdata_get_def
        split: option.splits sum.splits prod.splits if_splits)

text \<open>
  C4. On a token whose operation slot is occupied, \<^verbatim>\<open>object_find_init\<close> returns
  \<^verbatim>\<open>CKR_OPERATION_ACTIVE\<close> for every template (an array of any count, or no array and
  count 0) and changes neither the token nor the heap: the session in the slot is the
  one that was there, and no other is created. For the remaining argument shape, no
  array and a positive count, the token and the heap are unchanged as well. So a second
  \<^verbatim>\<open>object_find_init\<close> after a successful one fails, also after calls of \<^verbatim>\<open>object_find\<close>
  in between, which keep the slot occupied.
\<close>

theorem find_init_while_active:
  "(token_opdata_is_active tok \<longrightarrow>
      object_find_init h tok (Some ts) count = (CKR_OPERATION_ACTIVE, tok, h) \<and>
      object_find_init h tok None 0 = (CKR_OPERATION_ACTIVE, tok, h) \<and>
      snd (object_find_init h tok templ count) = (tok, h) \<and>
      token_opdata_is_active (fst (snd (object_find tok object m oc)))) \<and>
   (object_find_init h0 tok0 templ0 count0 = (CKR_OK, tok1, h1) \<longrightarrow>
      object_find_init h tok1 (Some ts) count = (CKR_OPERATION_ACTIVE, tok1, h) \<and>
      object_find_init h tok1 None 0 = (CKR_OPERATION_ACTIVE, tok1, h))"
proof (intro conjI impI)
  assume a: "token_opdata_is_active tok"
  show "object_find_init h tok (Some ts) count = (CKR_OPERATION_ACTIVE, tok, h)"
    using a by (simp add: object_find_init_def)
  show "object_find_init h tok None 0 = (CKR_OPERATION_ACTIVE, tok, h)"
    using a by (simp add: object_find_init_def)
  show "snd (object_find_init h tok templ count) = (tok, h)"
    using a by (simp add: object_find_init_def)
  show "token_opdata_is_active (fst (snd (object_find tok object m oc)))"
    using a by (rule object_find_keeps_active)
next
  assume "object_find_init h0 tok0 templ0 count0 = (CKR_OK, tok1, h1)"
  then have a: "token_opdata_is_active tok1" by (rule find_init_ok_active)
  show "object_find_init h tok1 (Some ts) count = (CKR_OPERATION_ACTIVE, tok1, h)"
    using a by (simp add: object_find_init_def)
  show "object_find_init h tok1 None 0 = (CKR_OPERATION_ACTIVE, tok1, h)"
    using a by (simp add: object_find_init_def)
qed

theorem find_init_while_active_witness:
  "token_opdata_is_active ex_session \<and>
   object_find_init ex_heap ex_token (Some [ex_class_key]) 1 = (CKR_OK, ex_session, ex_heap2) \<and>
   object_find_init ex_heap2 ex_session (Some [ex_class_cert]) 1 =
     (CKR_OPERATION_ACTIVE, ex_session, ex_heap2) \<and>
   object_find_init ex_heap2 ex_session None 0 = (CKR_OPERATION_ACTIVE, ex_session, ex_heap2) \<and>
   snd (object_find_init ex_heap2 ex_session None 1) = (ex_session, ex_heap2)"
proof -
  have a: "token_opdata_is_active ex_session"
    by (simp add: ex_defs eval_defs)
  have i: "object_find_init ex_heap ex_token (Some [ex_class_key]) 1 =
      (CKR_OK, ex_session, ex_heap2)"
    by (simp add: ex_defs eval_defs)
  from find_init_while_active
    [where tok = ex_session and h = ex_heap2 and ts = "[ex_class_cert]" and count = 1
       and templ = None and ?tok0.0 = ex_token and ?h0.0 = ex_heap
       and ?templ0.0 = "Some [ex_class_key]" and ?count0.0 = 1
       and ?tok1.0 = ex_session and ?h1.0 = ex_heap2] a i
  show ?thesis by blast
qed

text \<open>
  C10. When the token's slot does not hold a find session, the operation-state
  collaborator reports that no operation is active, and \<^verbatim>\<open>object_find\<close> returns that
  code, whatever it is, with the token, the caller's array and the caller's count as
  they were. With the slot as the specification describes it the code is
  \<^verbatim>\<open>CKR_OPERATION_NOT_INITIALIZED\<close>. Nothing is written either when a pointer is
  \<^verbatim>\<open>NULL\<close> and the call is refused before the slot is looked at.
\<close>

theorem find_without_session:
  "(token_opdata_get tok operation_find = Inl rv \<longrightarrow>
      object_find tok (Some arr) max_object_count (Some n) = (rv, tok, Some arr, Some n)) \<and>
   (\<not> (\<exists>fd. opdata tok = Some (operation_find, fd)) \<longrightarrow>
      token_opdata_get tok operation_find = Inl CKR_OPERATION_NOT_INITIALIZED \<and>
      object_find tok (Some arr) max_object_count (Some n) =
        (CKR_OPERATION_NOT_INITIALIZED, tok, Some arr, Some n) \<and>
      snd (object_find tok object max_object_count object_count) =
        (tok, object, object_count))"
  by (auto simp: object_find_def token_opdata_get_def split: option.splits sum.splits if_splits)

theorem find_without_session_witness:
  "\<not> (\<exists>fd. opdata ex_token = Some (operation_find, fd)) \<and>
   token_opdata_get ex_token operation_find = Inl CKR_OPERATION_NOT_INITIALIZED \<and>
   object_find ex_token (Some [9, 9]) 2 (Some 5) =
     (CKR_OPERATION_NOT_INITIALIZED, ex_token, Some [9, 9], Some 5)"
proof -
  have a: "\<not> (\<exists>fd. opdata ex_token = Some (operation_find, fd))"
    by (simp add: ex_defs)
  from find_without_session
    [where tok = ex_token and arr = "[9, 9]" and max_object_count = 2 and n = 5] a
  show ?thesis by blast
qed

section \<open>Properties of attribute retrieval\<close>

lemma get_attributes_loop_ok:
  "\<forall>t\<in>set ts. \<not> undersized tobj t \<Longrightarrow>
     get_attributes_loop tobj ts = (CKR_OK, map (entry_result tobj) ts)"
  by (induction ts) (auto simp: undersized_def entry_result_def split: option.splits)

lemma get_attributes_loop_fail:
  "undersized tobj t \<Longrightarrow> \<forall>p\<in>set pre. \<not> undersized tobj p \<Longrightarrow>
     get_attributes_loop tobj (pre @ t # post) =
       (CKR_BUFFER_TOO_SMALL, map (entry_result tobj) pre @ t # post)"
  by (induction pre) (auto simp: undersized_def entry_result_def split: option.splits)

lemma first_undersized:
  assumes "undersized tobj (ts ! k)"
  shows "\<exists>j\<le>k. undersized tobj (ts ! j) \<and> (\<forall>l<j. \<not> undersized tobj (ts ! l))"
proof -
  let ?P = "\<lambda>j. undersized tobj (ts ! j)"
  have "?P (LEAST j. ?P j)" using assms by (rule LeastI)
  moreover have "(LEAST j. ?P j) \<le> k" using assms by (rule Least_le)
  moreover have "\<forall>l<(LEAST j. ?P j). \<not> ?P l" using not_less_Least by blast
  ultimately show ?thesis by blast
qed

lemma take_split_at:
  assumes "j < count" "j < length (xs::'a list)"
  shows "take count xs = take j xs @ xs ! j # drop (Suc j) (take count xs)"
proof -
  have l: "j < length (take count xs)" using assms by simp
  have "take count xs = take j (take count xs) @ (take count xs) ! j # drop (Suc j) (take count xs)"
    using l by (rule id_take_nth_drop)
  moreover have "take j (take count xs) = take j xs" using assms by (simp add: min_def)
  moreover have "(take count xs) ! j = xs ! j" using assms by simp
  ultimately show ?thesis by simp
qed

lemma drop_split_at:
  assumes "j < count" "j < length (xs::'a list)"
  shows "xs ! j # drop (Suc j) (take count xs) @ drop count xs = drop j xs"
proof -
  have l: "j < length (take count xs)" using assms by simp
  have d: "drop j (take count xs) = xs ! j # drop (Suc j) (take count xs)"
    using Cons_nth_drop_Suc [OF l] assms by simp
  have "drop j xs = drop j (take count xs @ drop count xs)" by simp
  also have "\<dots> = drop j (take count xs) @ drop count xs"
    using l by (simp del: append_take_drop_id)
  finally show ?thesis using d by simp
qed

text \<open>
  C6. The handle resolves to an object, and some entry \<open>k\<close> among the entries the
  call is to process asks for a present attribute into a buffer declared smaller than
  the attribute. Then there is a first such entry \<open>j\<close>; the call returns
  \<^verbatim>\<open>CKR_BUFFER_TOO_SMALL\<close>; it leaves the template exactly as the successful call on the
  entries before \<open>j\<close> alone leaves it, so the writes to those entries persist; and the
  entries from \<open>j\<close> on, the failing one and all after it, are as the caller passed them.
\<close>

theorem get_attributes_buffer_too_small:
  assumes "find_object_by_id object tok = Some i"
    and "k < count" and "k < length templ"
    and "undersized (tobjects tok ! i) (templ ! k)"
  shows "\<exists>j templ'. j \<le> k \<and> undersized (tobjects tok ! i) (templ ! j) \<and>
           object_get_attributes tok object templ j = (CKR_OK, templ', tok) \<and>
           object_get_attributes tok object templ count = (CKR_BUFFER_TOO_SMALL, templ', tok) \<and>
           drop j templ' = drop j templ"
proof -
  let ?o = "tobjects tok ! i"
  from first_undersized [OF assms(4)] obtain j where
    j: "j \<le> k" "undersized ?o (templ ! j)" "\<forall>l<j. \<not> undersized ?o (templ ! l)" by blast
  have jl: "j < count" "j < length templ" using j(1) assms(2,3) by auto
  let ?pre = "take j templ"
  let ?post = "drop (Suc j) (take count templ)"
  have pre: "\<forall>p\<in>set ?pre. \<not> undersized ?o p"
    using j(3) jl by (auto simp: in_set_conv_nth)
  have a: "get_attributes_loop ?o ?pre = (CKR_OK, map (entry_result ?o) ?pre)"
    using pre by (rule get_attributes_loop_ok)
  have "get_attributes_loop ?o (?pre @ templ ! j # ?post) =
      (CKR_BUFFER_TOO_SMALL, map (entry_result ?o) ?pre @ templ ! j # ?post)"
    using j(2) pre by (rule get_attributes_loop_fail)
  then have b: "get_attributes_loop ?o (take count templ) =
      (CKR_BUFFER_TOO_SMALL, map (entry_result ?o) ?pre @ templ ! j # ?post)"
    using take_split_at [OF jl] by simp
  let ?t' = "map (entry_result ?o) ?pre @ drop j templ"
  have "object_get_attributes tok object templ j = (CKR_OK, ?t', tok)"
    using assms(1) a by (simp add: object_get_attributes_def)
  moreover have "object_get_attributes tok object templ count = (CKR_BUFFER_TOO_SMALL, ?t', tok)"
    using assms(1) b drop_split_at [OF jl] by (simp add: object_get_attributes_def)
  moreover have "drop j ?t' = drop j templ" using jl by simp
  ultimately show ?thesis using j(1,2) by blast
qed

text \<open>On the example: the label is asked for into two bytes, the class into two bytes,
  and the label's size is probed. The label (one byte) is copied, the class (three bytes)
  does not fit, and the probe is never answered.\<close>

theorem get_attributes_buffer_too_small_witness:
  "find_object_by_id 1 ex_token = Some 0 \<and>
   undersized (tobjects ex_token ! 0)
     ([\<lparr>type = 3, pValue = Some [0, 0], ulValueLen = 2\<rparr>,
       \<lparr>type = 0, pValue = Some [0, 0], ulValueLen = 2\<rparr>,
       \<lparr>type = 3, pValue = None, ulValueLen = 0\<rparr>] ! 1) \<and>
   (\<exists>(j :: nat) templ'. j \<le> 1 \<and>
      object_get_attributes ex_token 1
        [\<lparr>type = 3, pValue = Some [0, 0], ulValueLen = 2\<rparr>,
         \<lparr>type = 0, pValue = Some [0, 0], ulValueLen = 2\<rparr>,
         \<lparr>type = 3, pValue = None, ulValueLen = 0\<rparr>] 3 =
        (CKR_BUFFER_TOO_SMALL, templ', ex_token)) \<and>
   object_get_attributes ex_token 1
        [\<lparr>type = 3, pValue = Some [0, 0], ulValueLen = 2\<rparr>,
         \<lparr>type = 0, pValue = Some [0, 0], ulValueLen = 2\<rparr>,
         \<lparr>type = 3, pValue = None, ulValueLen = 0\<rparr>] 3 =
     (CKR_BUFFER_TOO_SMALL,
        [\<lparr>type = 3, pValue = Some [97, 0], ulValueLen = 1\<rparr>,
         \<lparr>type = 0, pValue = Some [0, 0], ulValueLen = 2\<rparr>,
         \<lparr>type = 3, pValue = None, ulValueLen = 0\<rparr>], ex_token)"
proof -
  let ?templ = "[\<lparr>type = 3, pValue = Some [0, 0], ulValueLen = 2\<rparr>,
       \<lparr>type = 0, pValue = Some [0, 0], ulValueLen = 2\<rparr>,
       \<lparr>type = 3, pValue = None, ulValueLen = 0\<rparr>]"
  have a: "find_object_by_id 1 ex_token = Some 0"
    by (simp add: ex_defs eval_defs)
  have b: "(1 :: nat) < 3" by simp
  have c: "1 < length ?templ" by simp
  have d: "undersized (tobjects ex_token ! 0) (?templ ! 1)"
    by (simp add: ex_defs eval_defs)
  from get_attributes_buffer_too_small [OF a b c d]
  have e: "\<exists>(j :: nat) templ'. j \<le> 1 \<and>
      object_get_attributes ex_token 1 ?templ 3 = (CKR_BUFFER_TOO_SMALL, templ', ex_token)"
    by blast
  have f: "object_get_attributes ex_token 1 ?templ 3 =
     (CKR_BUFFER_TOO_SMALL,
        [\<lparr>type = 3, pValue = Some [97, 0], ulValueLen = 1\<rparr>,
         \<lparr>type = 0, pValue = Some [0, 0], ulValueLen = 2\<rparr>,
         \<lparr>type = 3, pValue = None, ulValueLen = 0\<rparr>], ex_token)"
    by (simp add: ex_defs eval_defs)
  show ?thesis using a d e f by blast
qed

lemma exists_undersized_index:
  assumes "\<not> (\<forall>e\<in>set ts. \<not> undersized tobj e)"
  shows "\<exists>j < length ts. undersized tobj (ts ! j) \<and> (\<forall>l<j. \<not> undersized tobj (ts ! l))"
proof -
  from assms obtain m where m: "m < length ts" "undersized tobj (ts ! m)"
    by (auto simp: in_set_conv_nth)
  from first_undersized [OF m(2)] obtain j where
    "j \<le> m" "undersized tobj (ts ! j)" "\<forall>l<j. \<not> undersized tobj (ts ! l)" by blast
  with m(1) show ?thesis by (intro exI [of _ j]) simp
qed

lemma get_attributes_loop_probe:
  assumes "k < length ts" and "\<not> undersized tobj (ts ! k)"
    and "\<forall>e\<in>set (take k ts). \<not> undersized tobj e"
  shows "\<exists>rv ts'. get_attributes_loop tobj ts = (rv, ts') \<and> length ts' = length ts \<and>
           ts' ! k = entry_result tobj (ts ! k) \<and>
           (rv = CKR_OK \<or> rv = CKR_BUFFER_TOO_SMALL) \<and>
           (rv = CKR_OK \<longleftrightarrow> (\<forall>e\<in>set ts. \<not> undersized tobj e))"
proof (cases "\<forall>e\<in>set ts. \<not> undersized tobj e")
  case True
  then have "get_attributes_loop tobj ts = (CKR_OK, map (entry_result tobj) ts)"
    by (rule get_attributes_loop_ok)
  with True assms(1) show ?thesis by simp
next
  case False
  from exists_undersized_index [OF False] obtain j where
    j: "j < length ts" "undersized tobj (ts ! j)" "\<forall>l<j. \<not> undersized tobj (ts ! l)"
    by blast
  have kj: "k < j"
  proof (rule ccontr)
    assume "\<not> k < j"
    then have "j = k \<or> j < k" by auto
    then show False
    proof
      assume "j = k"
      with j(2) assms(2) show False by simp
    next
      assume "j < k"
      then have "ts ! j \<in> set (take k ts)"
        using assms(1) by (auto simp: in_set_conv_nth intro!: exI [of _ j])
      with assms(3) j(2) show False by blast
    qed
  qed
  have pre: "\<forall>p\<in>set (take j ts). \<not> undersized tobj p"
    using j(1,3) by (auto simp: in_set_conv_nth)
  have split: "ts = take j ts @ ts ! j # drop (Suc j) ts"
    using j(1) by (rule id_take_nth_drop)
  have "get_attributes_loop tobj (take j ts @ ts ! j # drop (Suc j) ts) =
      (CKR_BUFFER_TOO_SMALL, map (entry_result tobj) (take j ts) @ ts ! j # drop (Suc j) ts)"
    using j(2) pre by (rule get_attributes_loop_fail)
  then have r: "get_attributes_loop tobj ts =
      (CKR_BUFFER_TOO_SMALL, map (entry_result tobj) (take j ts) @ ts ! j # drop (Suc j) ts)"
    using split by simp
  let ?ts' = "map (entry_result tobj) (take j ts) @ ts ! j # drop (Suc j) ts"
  have l: "length ?ts' = length ts" using j(1) by simp
  have "?ts' ! k = map (entry_result tobj) (take j ts) ! k"
    using kj j(1) by (simp add: nth_append)
  also have "\<dots> = entry_result tobj (ts ! k)" using kj j(1) by simp
  finally have e: "?ts' ! k = entry_result tobj (ts ! k)" .
  show ?thesis using r l e False by simp
qed

text \<open>
  C7, as the code has it. \<^verbatim>\<open>object_get_attributes\<close> returns the token it was given,
  objects and operation slot included, for every handle and template. For a resolvable
  handle, a call with one entry that probes the size of a present attribute (no buffer)
  returns \<^verbatim>\<open>CKR_OK\<close> and reports the attribute's length, and the entry still has no
  buffer. In a longer template such a probe, when no entry before it is undersized,
  is answered with the length and keeps having no buffer; the call returns \<^verbatim>\<open>CKR_OK\<close>
  exactly when no entry it is to process is undersized, and \<^verbatim>\<open>CKR_BUFFER_TOO_SMALL\<close>
  otherwise.
\<close>

theorem get_attributes_read_only:
  "snd (snd (object_get_attributes tok object templ count)) = tok \<and>
   (find_object_by_id object tok = Some i \<and> pValue t = None \<and>
    object_get_attribute_by_type (tobjects tok ! i) (type t) = Some found
      \<longrightarrow> object_get_attributes tok object [t] 1 =
            (CKR_OK, [t\<lparr>ulValueLen := ulValueLen found\<rparr>], tok) \<and>
          pValue (t\<lparr>ulValueLen := ulValueLen found\<rparr>) = None \<and>
          \<not> undersized (tobjects tok ! i) t) \<and>
   (find_object_by_id object tok = Some i \<and>
    k < count \<and> k < length templ \<and> pValue (templ ! k) = None \<and>
    object_get_attribute_by_type (tobjects tok ! i) (type (templ ! k)) = Some found \<and>
    (\<forall>e\<in>set (take k templ). \<not> undersized (tobjects tok ! i) e)
      \<longrightarrow> (\<exists>rv templ'. object_get_attributes tok object templ count = (rv, templ', tok) \<and>
             templ' ! k = (templ ! k)\<lparr>ulValueLen := ulValueLen found\<rparr> \<and>
             pValue (templ' ! k) = None \<and>
             (rv = CKR_OK \<or> rv = CKR_BUFFER_TOO_SMALL) \<and>
             (rv = CKR_OK \<longleftrightarrow>
                (\<forall>e\<in>set (take count templ). \<not> undersized (tobjects tok ! i) e))))"
proof (intro conjI impI)
  show "snd (snd (object_get_attributes tok object templ count)) = tok"
    by (simp add: object_get_attributes_def split: option.splits prod.splits)
next
  assume a: "find_object_by_id object tok = Some i \<and> pValue t = None \<and>
    object_get_attribute_by_type (tobjects tok ! i) (type t) = Some found"
  then show "object_get_attributes tok object [t] 1 =
      (CKR_OK, [t\<lparr>ulValueLen := ulValueLen found\<rparr>], tok)"
    by (simp add: object_get_attributes_def)
  from a show "pValue (t\<lparr>ulValueLen := ulValueLen found\<rparr>) = None" by simp
  from a show "\<not> undersized (tobjects tok ! i) t" by (simp add: undersized_def)
next
  let ?o = "tobjects tok ! i"
  let ?ts = "take count templ"
  assume a: "find_object_by_id object tok = Some i \<and>
    k < count \<and> k < length templ \<and> pValue (templ ! k) = None \<and>
    object_get_attribute_by_type ?o (type (templ ! k)) = Some found \<and>
    (\<forall>e\<in>set (take k templ). \<not> undersized ?o e)"
  have k: "k < length ?ts" using a by simp
  have tk: "?ts ! k = templ ! k" using a by simp
  have n: "\<not> undersized ?o (?ts ! k)" using a tk by (simp add: undersized_def)
  have "take k ?ts = take k templ" using a by (simp add: min_def)
  then have p: "\<forall>e\<in>set (take k ?ts). \<not> undersized ?o e" using a by simp
  from get_attributes_loop_probe [OF k n p] obtain rv ts' where
    r: "get_attributes_loop ?o ?ts = (rv, ts')" and l: "length ts' = length ?ts"
    and e: "ts' ! k = entry_result ?o (?ts ! k)"
    and c: "rv = CKR_OK \<or> rv = CKR_BUFFER_TOO_SMALL"
    and ok: "rv = CKR_OK \<longleftrightarrow> (\<forall>e\<in>set ?ts. \<not> undersized ?o e)"
    by blast
  let ?t' = "ts' @ drop count templ"
  have call: "object_get_attributes tok object templ count = (rv, ?t', tok)"
    using a r by (simp add: object_get_attributes_def)
  have "?t' ! k = ts' ! k" using k l by (simp add: nth_append)
  also have "\<dots> = entry_result ?o (templ ! k)" using e tk by simp
  also have "\<dots> = (templ ! k)\<lparr>ulValueLen := ulValueLen found\<rparr>"
    using a by (simp add: entry_result_def)
  finally have v: "?t' ! k = (templ ! k)\<lparr>ulValueLen := ulValueLen found\<rparr>" .
  have b: "pValue (?t' ! k) = None" using v a by simp
  show "\<exists>rv templ'. object_get_attributes tok object templ count = (rv, templ', tok) \<and>
      templ' ! k = (templ ! k)\<lparr>ulValueLen := ulValueLen found\<rparr> \<and>
      pValue (templ' ! k) = None \<and>
      (rv = CKR_OK \<or> rv = CKR_BUFFER_TOO_SMALL) \<and>
      (rv = CKR_OK \<longleftrightarrow> (\<forall>e\<in>set (take count templ). \<not> undersized ?o e))"
    using call v b c ok by blast
qed

text \<open>On the example: the size of the key's class (three bytes) is probed, alone, and
  between a copy of the label that fits and a request for the class into two bytes. The
  probe is answered both times; the second call fails at its last entry.\<close>

theorem get_attributes_read_only_witness:
  "find_object_by_id 1 ex_token = Some 0 \<and>
   object_get_attribute_by_type (tobjects ex_token ! 0) 0 = Some ex_class_key \<and>
   object_get_attributes ex_token 1 [\<lparr>type = 0, pValue = None, ulValueLen = 0\<rparr>] 1 =
     (CKR_OK, [\<lparr>type = 0, pValue = None, ulValueLen = 3\<rparr>], ex_token) \<and>
   (\<exists>rv templ'. object_get_attributes ex_token 1
        [\<lparr>type = 3, pValue = Some [0, 0], ulValueLen = 2\<rparr>,
         \<lparr>type = 0, pValue = None, ulValueLen = 0\<rparr>,
         \<lparr>type = 0, pValue = Some [0, 0], ulValueLen = 2\<rparr>] 3 = (rv, templ', ex_token) \<and>
      templ' ! 1 = \<lparr>type = 0, pValue = None, ulValueLen = 3\<rparr> \<and>
      rv = CKR_BUFFER_TOO_SMALL)"
proof -
  let ?probe = "\<lparr>type = 0, pValue = None, ulValueLen = 0\<rparr> :: CK_ATTRIBUTE"
  let ?small = "\<lparr>type = 0, pValue = Some [0, 0], ulValueLen = 2\<rparr> :: CK_ATTRIBUTE"
  let ?templ = "[\<lparr>type = 3, pValue = Some [0, 0], ulValueLen = 2\<rparr>, ?probe, ?small]"
  have a: "find_object_by_id 1 ex_token = Some 0"
    by (simp add: ex_defs eval_defs)
  have b: "object_get_attribute_by_type (tobjects ex_token ! 0) 0 = Some ex_class_key"
    by (simp add: ex_defs eval_defs)
  have c: "pValue ?probe = None" "type ?probe = 0" by simp_all
  have d: "\<forall>e\<in>set (take 1 ?templ). \<not> undersized (tobjects ex_token ! 0) e"
    by (simp add: ex_defs eval_defs)
  have u: "\<not> (\<forall>e\<in>set (take 3 ?templ). \<not> undersized (tobjects ex_token ! 0) e)"
    by (simp add: ex_defs eval_defs)
  have e: "(1 :: nat) < 3" "1 < length ?templ" "pValue (?templ ! 1) = None"
    "type (?templ ! 1) = 0" "?templ ! 1 = ?probe"
    by simp_all
  have l: "?probe\<lparr>ulValueLen := ulValueLen ex_class_key\<rparr> =
      \<lparr>type = 0, pValue = None, ulValueLen = 3\<rparr>"
    by (simp add: ex_class_key_def)
  note t = get_attributes_read_only
    [where tok = ex_token and object = 1 and i = 0 and t = ?probe and found = ex_class_key
       and templ = ?templ and count = 3 and k = 1]
  from t a b c have "object_get_attributes ex_token 1 [?probe] 1 =
      (CKR_OK, [?probe\<lparr>ulValueLen := ulValueLen ex_class_key\<rparr>], ex_token)"
    using t [THEN conjunct2, THEN conjunct1] by simp
  then have p: "object_get_attributes ex_token 1 [?probe] 1 =
      (CKR_OK, [\<lparr>type = 0, pValue = None, ulValueLen = 3\<rparr>], ex_token)"
    by (simp only: l)
  have h: "find_object_by_id 1 ex_token = Some 0 \<and>
    1 < (3 :: nat) \<and> 1 < length ?templ \<and> pValue (?templ ! 1) = None \<and>
    object_get_attribute_by_type (tobjects ex_token ! 0) (type (?templ ! 1)) = Some ex_class_key \<and>
    (\<forall>e\<in>set (take 1 ?templ). \<not> undersized (tobjects ex_token ! 0) e)"
    using a b d e by simp
  from t [THEN conjunct2, THEN conjunct2, rule_format, OF h] obtain rv templ' where
    r: "object_get_attributes ex_token 1 ?templ 3 = (rv, templ', ex_token)"
    and v: "templ' ! 1 = (?templ ! 1)\<lparr>ulValueLen := ulValueLen ex_class_key\<rparr>"
    and o: "rv = CKR_OK \<or> rv = CKR_BUFFER_TOO_SMALL"
    and k: "rv = CKR_OK \<longleftrightarrow>
       (\<forall>e\<in>set (take 3 ?templ). \<not> undersized (tobjects ex_token ! 0) e)"
    by blast
  have v': "templ' ! 1 = \<lparr>type = 0, pValue = None, ulValueLen = 3\<rparr>"
    using v l by simp
  have rv: "rv = CKR_BUFFER_TOO_SMALL" using o k u by blast
  show ?thesis using a b p r v' rv by blast
qed

text \<open>
  C7, as the claim has it, fails: a probe does not make the call succeed, and is not
  always answered. The class is asked for into two bytes and then the size of the label
  (present, one byte) is probed: the call returns \<^verbatim>\<open>CKR_BUFFER_TOO_SMALL\<close> and the probe
  entry still says length 0.
\<close>

theorem get_attributes_probe_counterexample:
  "find_object_by_id 1 ex_token = Some 0 \<and>
   object_get_attribute_by_type (tobjects ex_token ! 0) 3 = Some ex_label \<and>
   ulValueLen ex_label = 1 \<and>
   object_get_attributes ex_token 1
     [\<lparr>type = 0, pValue = Some [0, 0], ulValueLen = 2\<rparr>,
      \<lparr>type = 3, pValue = None, ulValueLen = 0\<rparr>] 2 =
     (CKR_BUFFER_TOO_SMALL,
      [\<lparr>type = 0, pValue = Some [0, 0], ulValueLen = 2\<rparr>,
       \<lparr>type = 3, pValue = None, ulValueLen = 0\<rparr>], ex_token)"
  by (simp add: ex_defs eval_defs)

end
